theory Spec2Isabelle
  imports Main "HOL-Library.Word" "HOL-Library.AList"
begin

section \<open>JavaScript strings\<close>

text \<open>
  A JavaScript string is a sequence of 16-bit code units. String literals of the
  source are ASCII; \<open>js\<close> turns a HOL literal into code units.
\<close>

type_synonym jschar = "16 word"
type_synonym jsstring = "jschar list"

definition ch :: "char \<Rightarrow> jschar" where
  "ch c = of_nat (of_char c)"

definition js :: "string \<Rightarrow> jsstring" where
  "js s = map ch s"

text \<open>
  The regular expression class \<open>\s\<close> and \<open>String.prototype.trim\<close> use the same set:
  WhiteSpace and LineTerminator of ECMAScript.
\<close>

definition isWhiteSpace :: "jschar \<Rightarrow> bool" where
  "isWhiteSpace c \<longleftrightarrow>
     c = 0x09 \<or> c = 0x0A \<or> c = 0x0B \<or> c = 0x0C \<or> c = 0x0D \<or> c = 0x20 \<or> c = 0xA0 \<or>
     c = 0x1680 \<or> (0x2000 \<le> c \<and> c \<le> 0x200A) \<or> c = 0x2028 \<or> c = 0x2029 \<or>
     c = 0x202F \<or> c = 0x205F \<or> c = 0x3000 \<or> c = 0xFEFF"

text \<open>The class \<open>[A-Za-z]\<close>.\<close>

definition isLetter :: "jschar \<Rightarrow> bool" where
  "isLetter c \<longleftrightarrow> (0x41 \<le> c \<and> c \<le> 0x5A) \<or> (0x61 \<le> c \<and> c \<le> 0x7A)"

text \<open>The class \<open>[MmLlCcAaZz]\<close>.\<close>

definition isCommandLetter :: "jschar \<Rightarrow> bool" where
  "isCommandLetter c \<longleftrightarrow>
     c = ch CHR ''M'' \<or> c = ch CHR ''m'' \<or> c = ch CHR ''L'' \<or> c = ch CHR ''l'' \<or>
     c = ch CHR ''C'' \<or> c = ch CHR ''c'' \<or> c = ch CHR ''A'' \<or> c = ch CHR ''a'' \<or>
     c = ch CHR ''Z'' \<or> c = ch CHR ''z''"

text \<open>The class \<open>[\s,]\<close>.\<close>

definition isSeparator :: "jschar \<Rightarrow> bool" where
  "isSeparator c \<longleftrightarrow> isWhiteSpace c \<or> c = ch CHR '',''"

definition isDigit :: "jschar \<Rightarrow> bool" where
  "isDigit c \<longleftrightarrow> 0x30 \<le> c \<and> c \<le> 0x39"

definition trim :: "jsstring \<Rightarrow> jsstring" where
  "trim s = rev (dropWhile isWhiteSpace (rev (dropWhile isWhiteSpace s)))"

definition endsWith :: "jsstring \<Rightarrow> jsstring \<Rightarrow> bool" where
  "endsWith s suffix \<longleftrightarrow>
     length suffix \<le> length s \<and> drop (length s - length suffix) s = suffix"

text \<open>
  \<open>s.split(/[\s,]+/)\<close>: the pieces between maximal runs of separators. A
  separator run at the start or at the end leaves an empty piece there, and the
  empty string splits into one empty piece.
\<close>

function split :: "jsstring \<Rightarrow> jsstring list" where
  "split s =
     (let rest = dropWhile (\<lambda>c. \<not> isSeparator c) s
      in if rest = [] then [takeWhile (\<lambda>c. \<not> isSeparator c) s]
         else takeWhile (\<lambda>c. \<not> isSeparator c) s # split (dropWhile isSeparator rest))"
  by pat_completeness auto
termination
proof (relation "measure length")
  show "wf (measure length)" by simp
next
  fix s rest :: jsstring
  assume r: "rest = dropWhile (\<lambda>c. \<not> isSeparator c) s" and ne: "rest \<noteq> []"
  from r ne have "isSeparator (hd rest)"
    using hd_dropWhile [of "\<lambda>c. \<not> isSeparator c" s] by simp
  with ne have "length (dropWhile isSeparator rest) < length rest"
    by (cases rest) (auto simp: length_dropWhile_le le_imp_less_Suc)
  moreover from r have "length rest \<le> length s"
    by (simp add: length_dropWhile_le)
  ultimately show "(dropWhile isSeparator rest, s) \<in> measure length"
    by simp
qed

declare split.simps [simp del]

section \<open>JavaScript numbers and values\<close>

text \<open>
  A finite number \<open>Fin m e\<close> stands for \<open>m * 10^e\<close>. The model keeps the exact
  decimal value of a numeric literal: the rounding of ECMAScript to binary64 is not
  modelled, so the model agrees with the language on literals of at most 15
  significant digits within the binary64 range, and on which strings are not numbers
  at all. The two zeros are one value (they are equal under \<open>===\<close> and print alike).
\<close>

datatype jsnum = NaN | PosInfinity | NegInfinity | Fin int int

function norm10 :: "int \<Rightarrow> int \<Rightarrow> jsnum" where
  "norm10 m e =
     (if m = 0 then Fin 0 0
      else if m mod 10 = 0 then norm10 (m div 10) (e + 1)
      else Fin m e)"
  by pat_completeness auto
termination
  by (relation "measure (\<lambda>(m, e). nat \<bar>m\<bar>)") auto

declare norm10.simps [simp del]

definition digitVal :: "jschar \<Rightarrow> nat" where
  "digitVal c =
     (if isDigit c then unat c - 0x30
      else if 0x61 \<le> c \<and> c \<le> 0x66 then unat c - 0x61 + 10
      else unat c - 0x41 + 10)"

definition digitsValue :: "nat \<Rightarrow> jsstring \<Rightarrow> nat" where
  "digitsValue base ds = foldl (\<lambda>a c. a * base + digitVal c) 0 ds"

definition isHexDigit :: "jschar \<Rightarrow> bool" where
  "isHexDigit c \<longleftrightarrow>
     isDigit c \<or> (0x61 \<le> c \<and> c \<le> 0x66) \<or> (0x41 \<le> c \<and> c \<le> 0x46)"

definition isOctalDigit :: "jschar \<Rightarrow> bool" where
  "isOctalDigit c \<longleftrightarrow> 0x30 \<le> c \<and> c \<le> 0x37"

definition isBinaryDigit :: "jschar \<Rightarrow> bool" where
  "isBinaryDigit c \<longleftrightarrow> c = 0x30 \<or> c = 0x31"

text \<open>
  ExponentPart of a decimal literal: nothing, or \<open>e\<close>/\<open>E\<close>, an optional sign and at
  least one digit. \<open>None\<close> when the text is not an exponent part.
\<close>

definition exponentPart :: "jsstring \<Rightarrow> int option" where
  "exponentPart s =
     (case s of
        [] \<Rightarrow> Some 0
      | c # r \<Rightarrow>
          if c = ch CHR ''e'' \<or> c = ch CHR ''E'' then
            (case r of
               [] \<Rightarrow> None
             | sg # ds \<Rightarrow>
                 if sg = ch CHR ''+'' then
                   (if ds \<noteq> [] \<and> list_all isDigit ds then Some (int (digitsValue 10 ds)) else None)
                 else if sg = ch CHR ''-'' then
                   (if ds \<noteq> [] \<and> list_all isDigit ds then Some (- int (digitsValue 10 ds)) else None)
                 else if list_all isDigit r then Some (int (digitsValue 10 r))
                 else None)
          else None)"

text \<open>
  StrUnsignedDecimalLiteral: \<open>Infinity\<close>, or digits with an optional fraction and
  exponent (\<open>1\<close>, \<open>1.\<close>, \<open>1.5\<close>, \<open>.5\<close>, each with an optional exponent part).
\<close>

definition unsignedDecimal :: "jsstring \<Rightarrow> jsnum" where
  "unsignedDecimal s =
     (if s = js ''Infinity'' then PosInfinity
      else
        let ip = takeWhile isDigit s;
            r1 = dropWhile isDigit s;
            dot = (r1 \<noteq> [] \<and> hd r1 = ch CHR ''.'');
            fp = (if dot then takeWhile isDigit (tl r1) else []);
            r2 = (if dot then dropWhile isDigit (tl r1) else r1)
        in if ip = [] \<and> fp = [] then NaN
           else (case exponentPart r2 of
                   None \<Rightarrow> NaN
                 | Some ex \<Rightarrow> norm10 (int (digitsValue 10 (ip @ fp))) (ex - int (length fp))))"

definition negate :: "jsnum \<Rightarrow> jsnum" where
  "negate n =
     (case n of
        NaN \<Rightarrow> NaN
      | PosInfinity \<Rightarrow> NegInfinity
      | NegInfinity \<Rightarrow> PosInfinity
      | Fin m e \<Rightarrow> Fin (- m) e)"

text \<open>
  \<open>Number(s)\<close> for a string \<open>s\<close> (StringToNumber): white space is trimmed, the empty
  string is 0, then a binary, octal or hexadecimal integer literal, or a signed
  decimal literal; anything else is \<open>NaN\<close>.
\<close>

definition Number :: "jsstring \<Rightarrow> jsnum" where
  "Number s =
     (let t = trim s in
      if t = [] then Fin 0 0
      else if take 2 t = js ''0x'' \<or> take 2 t = js ''0X'' then
        (if drop 2 t \<noteq> [] \<and> list_all isHexDigit (drop 2 t)
         then norm10 (int (digitsValue 16 (drop 2 t))) 0 else NaN)
      else if take 2 t = js ''0o'' \<or> take 2 t = js ''0O'' then
        (if drop 2 t \<noteq> [] \<and> list_all isOctalDigit (drop 2 t)
         then norm10 (int (digitsValue 8 (drop 2 t))) 0 else NaN)
      else if take 2 t = js ''0b'' \<or> take 2 t = js ''0B'' then
        (if drop 2 t \<noteq> [] \<and> list_all isBinaryDigit (drop 2 t)
         then norm10 (int (digitsValue 2 (drop 2 t))) 0 else NaN)
      else if hd t = ch CHR ''+'' then unsignedDecimal (tl t)
      else if hd t = ch CHR ''-'' then negate (unsignedDecimal (tl t))
      else unsignedDecimal t)"

function natDigits :: "nat \<Rightarrow> jsstring" where
  "natDigits n =
     (if n < 10 then [of_nat (0x30 + n)]
      else natDigits (n div 10) @ [of_nat (0x30 + n mod 10)])"
  by pat_completeness auto
termination
  by (relation "measure id") auto

declare natDigits.simps [simp del]

text \<open>
  \<open>Number::toString\<close> in radix 10. With \<open>k\<close> digits and the decimal point after
  digit \<open>n\<close>: plain notation when \<open>-6 < n \<le> 21\<close>, exponent notation otherwise.
\<close>

definition finToString :: "nat \<Rightarrow> int \<Rightarrow> jsstring" where
  "finToString m e =
     (let ds = natDigits m;
          k = int (length ds);
          n = e + k
      in if k \<le> n \<and> n \<le> 21 then ds @ replicate (nat (n - k)) (ch CHR ''0'')
         else if 0 < n \<and> n \<le> 21 then take (nat n) ds @ js ''.'' @ drop (nat n) ds
         else if - 6 < n \<and> n \<le> 0 then js ''0.'' @ replicate (nat (- n)) (ch CHR ''0'') @ ds
         else (if k = 1 then ds else take 1 ds @ js ''.'' @ drop 1 ds)
              @ js ''e'' @ (if 0 \<le> n - 1 then js ''+'' else js ''-'')
              @ natDigits (nat \<bar>n - 1\<bar>))"

definition numberToString :: "jsnum \<Rightarrow> jsstring" where
  "numberToString n =
     (case n of
        NaN \<Rightarrow> js ''NaN''
      | PosInfinity \<Rightarrow> js ''Infinity''
      | NegInfinity \<Rightarrow> js ''-Infinity''
      | Fin m e \<Rightarrow>
          (case norm10 m e of
             Fin m' e' \<Rightarrow>
               if m' = 0 then js ''0''
               else if m' < 0 then js ''-'' @ finToString (nat (- m')) e'
               else finToString (nat m') e'
           | _ \<Rightarrow> js ''NaN''))"

datatype jsval = Undefined | Null | Bool bool | Num jsnum | Str jsstring

definition jsToString :: "jsval \<Rightarrow> jsstring" where
  "jsToString v =
     (case v of
        Undefined \<Rightarrow> js ''undefined''
      | Null \<Rightarrow> js ''null''
      | Bool b \<Rightarrow> (if b then js ''true'' else js ''false'')
      | Num n \<Rightarrow> numberToString n
      | Str s \<Rightarrow> s)"

section \<open>PathEditor: parsePath\<close>

text \<open>
  A command object is a JavaScript object: its properties in creation order. Reading
  a property the object does not have gives \<open>undefined\<close>; assigning creates the
  property or overwrites it in place.
\<close>

type_synonym commandObj = "(string \<times> jsval) list"

definition getProp :: "commandObj \<Rightarrow> string \<Rightarrow> jsval" where
  "getProp obj k = (case map_of obj k of None \<Rightarrow> Undefined | Some v \<Rightarrow> v)"

definition setProp :: "commandObj \<Rightarrow> string \<Rightarrow> jsval \<Rightarrow> commandObj" where
  "setProp obj k v = AList.update k v obj"

text \<open>\<open>coords[i]\<close>: \<open>undefined\<close> past the end of the array.\<close>

definition coordAt :: "jsnum list \<Rightarrow> nat \<Rightarrow> jsval" where
  "coordAt coords i = (if i < length coords then Num (coords ! i) else Undefined)"

text \<open>
  One call of \<open>regex.exec(d)\<close> for \<open>/([MmLlCcAaZz])\s*([^A-Za-z]+)?/g\<close>, on the
  text from \<open>lastIndex\<close> on: the first command letter, all white space after it, then
  the longest run of non-letters (group 2, which did not take part when the run is
  empty). The result is group 1, group 2 and the text after the match; \<open>None\<close> is
  \<open>null\<close>, no match.
\<close>

fun regexExec :: "jsstring \<Rightarrow> (jschar \<times> jsstring option \<times> jsstring) option" where
  "regexExec [] = None"
| "regexExec (c # cs) =
     (if isCommandLetter c then
        (let afterSpace = dropWhile isWhiteSpace cs;
             group2 = takeWhile (\<lambda>x. \<not> isLetter x) afterSpace
         in Some (c, if group2 = [] then None else Some group2,
                  dropWhile (\<lambda>x. \<not> isLetter x) afterSpace))
      else regexExec cs)"

text \<open>The body of the \<open>while\<close> loop of \<open>parsePath\<close>: the object built for one match.\<close>

definition parseCommand :: "jschar \<Rightarrow> jsstring option \<Rightarrow> commandObj" where
  "parseCommand command match2 =
     (let commandObj = [(''command'', Str [command])] in
      if command = ch CHR ''Z'' \<or> command = ch CHR ''z'' then commandObj
      else
        let coords = map Number (split (trim (case match2 of None \<Rightarrow> [] | Some s \<Rightarrow> s))) in
        if command = ch CHR ''M'' \<or> command = ch CHR ''m'' \<or>
           command = ch CHR ''L'' \<or> command = ch CHR ''l'' then
          setProp (setProp commandObj ''x'' (coordAt coords 0)) ''y'' (coordAt coords 1)
        else if command = ch CHR ''C'' \<or> command = ch CHR ''c'' then
          setProp (setProp (setProp (setProp (setProp (setProp commandObj
            ''x1'' (coordAt coords 0)) ''y1'' (coordAt coords 1))
            ''x2'' (coordAt coords 2)) ''y2'' (coordAt coords 3))
            ''x'' (coordAt coords 4)) ''y'' (coordAt coords 5)
        else if command = ch CHR ''A'' \<or> command = ch CHR ''a'' then
          setProp (setProp (setProp (setProp (setProp (setProp (setProp commandObj
            ''rx'' (coordAt coords 0)) ''ry'' (coordAt coords 1))
            ''xAxisRotation'' (coordAt coords 2)) ''largeArcFlag'' (coordAt coords 3))
            ''sweepFlag'' (coordAt coords 4)) ''x'' (coordAt coords 5)) ''y'' (coordAt coords 6)
        else commandObj)"

lemma regexExec_shorter:
  "regexExec d = Some (c, g, rest) \<Longrightarrow> length rest < length d"
proof (induction d)
  case Nil
  then show ?case by simp
next
  case (Cons a d)
  show ?case
  proof (cases "isCommandLetter a")
    case True
    with Cons.prems have "rest = dropWhile (\<lambda>x. \<not> isLetter x) (dropWhile isWhiteSpace d)"
      by (simp add: Let_def)
    moreover have "length (dropWhile (\<lambda>x. \<not> isLetter x) (dropWhile isWhiteSpace d)) \<le> length d"
      by (meson length_dropWhile_le order_trans)
    ultimately show ?thesis by simp
  next
    case False
    with Cons show ?thesis by fastforce
  qed
qed

text \<open>
  The loop \<open>while ((match = regex.exec(d)) !== null)\<close>, with the array \<open>pathData\<close>
  built so far; every match is followed by a \<open>push\<close>.
\<close>

function parseLoop :: "jsstring \<Rightarrow> commandObj list \<Rightarrow> commandObj list" where
  "parseLoop d pathData =
     (case regexExec d of
        None \<Rightarrow> pathData
      | Some (command, match2, rest) \<Rightarrow>
          parseLoop rest (pathData @ [parseCommand command match2]))"
  by pat_completeness auto
termination
  by (relation "measure (\<lambda>(d, pathData). length d)") (auto dest: regexExec_shorter)

declare parseLoop.simps [simp del]

definition parsePath :: "jsstring \<Rightarrow> commandObj list" where
  "parsePath d = parseLoop d []"

section \<open>PathEditor: generatePath\<close>

text \<open>
  The document: its elements in tree order, each with its \<open>id\<close> (empty when it has
  none) and its \<open>d\<close> attribute (\<open>None\<close> when absent, which \<open>getAttribute\<close> reports
  as \<open>null\<close>). An element reference is a position in this list; an element that is
  not attached to the document is never found by \<open>getElementById\<close>.
\<close>

record element =
  elem_id :: jsstring
  attr_d :: "jsstring option"
  inDocument :: bool

type_synonym dom = "element list"

datatype error = TypeError | SyntaxError

definition getElementById :: "dom \<Rightarrow> jsstring \<Rightarrow> element option" where
  "getElementById doc i =
     (if i = [] then None else find (\<lambda>el. inDocument el \<and> elem_id el = i) doc)"

text \<open>
  The body of \<open>pathData.forEach\<close> in \<open>generatePath\<close>: \<open>dString\<close> before and after one
  command object. The comparisons are \<open>===\<close> against string literals.
\<close>

definition emitCommand :: "jsstring \<Rightarrow> commandObj \<Rightarrow> jsstring" where
  "emitCommand dString commandObj =
     (let command = getProp commandObj ''command'';
          dString1 = dString @ jsToString command @ js '' ''
      in if command = Str (js ''M'') \<or> command = Str (js ''m'') \<or>
            command = Str (js ''L'') \<or> command = Str (js ''l'') then
           dString1 @ jsToString (getProp commandObj ''x'') @ js '','' @
             jsToString (getProp commandObj ''y'') @ js '' ''
         else if command = Str (js ''C'') \<or> command = Str (js ''c'') then
           dString1 @ jsToString (getProp commandObj ''x1'') @ js '','' @
             jsToString (getProp commandObj ''y1'') @ js '' '' @
             jsToString (getProp commandObj ''x2'') @ js '','' @
             jsToString (getProp commandObj ''y2'') @ js '' '' @
             jsToString (getProp commandObj ''x'') @ js '','' @
             jsToString (getProp commandObj ''y'') @ js '' ''
         else if command = Str (js ''A'') \<or> command = Str (js ''a'') then
           dString1 @ jsToString (getProp commandObj ''rx'') @ js '','' @
             jsToString (getProp commandObj ''ry'') @ js '' '' @
             jsToString (getProp commandObj ''xAxisRotation'') @ js '' '' @
             jsToString (getProp commandObj ''largeArcFlag'') @ js '','' @
             jsToString (getProp commandObj ''sweepFlag'') @ js '' '' @
             jsToString (getProp commandObj ''x'') @ js '','' @
             jsToString (getProp commandObj ''y'') @ js '' ''
         else dString1)"

text \<open>
  \<open>originalPathD && originalPathD.trim().endsWith('Z')\<close>: \<open>null\<close> and the empty
  string are falsy.
\<close>

definition closesWithZ :: "jsstring option \<Rightarrow> bool" where
  "closesWithZ originalPathD =
     (case originalPathD of
        None \<Rightarrow> False
      | Some s \<Rightarrow> s \<noteq> [] \<and> endsWith (trim s) (js ''Z''))"

text \<open>
  \<open>generatePath(pathData, pathId)\<close>. Calling \<open>getAttribute\<close> on the \<open>null\<close> that
  \<open>getElementById\<close> returns for an unknown id raises a TypeError.
\<close>

definition generatePath :: "dom \<Rightarrow> commandObj list \<Rightarrow> jsstring \<Rightarrow> error + jsstring" where
  "generatePath doc pathData pathId =
     (let dString = foldl emitCommand [] pathData in
      case getElementById doc pathId of
        None \<Rightarrow> Inl TypeError
      | Some el \<Rightarrow>
          Inr (trim (if closesWithZ (attr_d el) then dString @ js ''Z'' else dString)))"

section \<open>PathEditor: updatePath and drawMarkers\<close>

text \<open>
  A marker is a \<open>circle\<close> element of the markers group; attribute values are strings.
\<close>

record marker =
  cx :: jsstring
  cy :: jsstring
  fill :: jsstring
  dataIndex :: jsstring
  dataPointType :: "jsstring option"

text \<open>The \<open>forEach\<close> of \<open>drawMarkers\<close>, with the running \<open>index\<close>.\<close>

fun drawLoop :: "nat \<Rightarrow> commandObj list \<Rightarrow> marker list" where
  "drawLoop index [] = []"
| "drawLoop index (commandObj # others) =
     (if getProp commandObj ''x'' \<noteq> Undefined \<and> getProp commandObj ''y'' \<noteq> Undefined
      then [\<lparr>cx = jsToString (getProp commandObj ''x''),
             cy = jsToString (getProp commandObj ''y''),
             fill = js ''#f44336'', dataIndex = natDigits index, dataPointType = None\<rparr>]
      else []) @
     (if getProp commandObj ''x1'' \<noteq> Undefined \<and> getProp commandObj ''y1'' \<noteq> Undefined
      then [\<lparr>cx = jsToString (getProp commandObj ''x1''),
             cy = jsToString (getProp commandObj ''y1''),
             fill = js ''#4caf50'', dataIndex = natDigits index,
             dataPointType = Some (js ''C1'')\<rparr>]
      else []) @
     (if getProp commandObj ''x2'' \<noteq> Undefined \<and> getProp commandObj ''y2'' \<noteq> Undefined
      then [\<lparr>cx = jsToString (getProp commandObj ''x2''),
             cy = jsToString (getProp commandObj ''y2''),
             fill = js ''#4caf50'', dataIndex = natDigits index,
             dataPointType = Some (js ''C2'')\<rparr>]
      else []) @
     drawLoop (Suc index) others"

definition drawMarkers :: "commandObj list \<Rightarrow> marker list" where
  "drawMarkers parsedPathData = drawLoop 0 parsedPathData"

text \<open>
  An editor instance: the reference \<open>pathElem\<close> and the children of its markers
  group. \<open>updateData\<close> is the argument of \<open>updatePath\<close>.
\<close>

record editor =
  pathElem :: nat
  markers :: "marker list"

record updateData =
  upd_x :: jsval
  upd_y :: jsval
  upd_index :: jsnum
  upd_pointType :: jsstring

text \<open>
  \<open>parsedPathData[updateData.index]\<close>: an element when the number is an integer
  from 0 below the length, \<open>undefined\<close> (\<open>None\<close>) for every other number.
\<close>

definition arrayIndex :: "jsnum \<Rightarrow> nat option" where
  "arrayIndex n =
     (case n of
        Fin m e \<Rightarrow>
          (case norm10 m e of
             Fin m' e' \<Rightarrow> if 0 \<le> m' \<and> 0 \<le> e' then Some (nat m' * 10 ^ nat e') else None
           | _ \<Rightarrow> None)
      | _ \<Rightarrow> None)"

text \<open>The three branches on \<open>updateData.pointType\<close>: the object after the assignments.\<close>

definition movePoint :: "updateData \<Rightarrow> commandObj \<Rightarrow> commandObj" where
  "movePoint upd commandObj =
     (if upd_pointType upd = js ''C1'' then
        setProp (setProp commandObj ''x1'' (upd_x upd)) ''y1'' (upd_y upd)
      else if upd_pointType upd = js ''C2'' then
        setProp (setProp commandObj ''x2'' (upd_x upd)) ''y2'' (upd_y upd)
      else
        setProp (setProp commandObj ''x'' (upd_x upd)) ''y'' (upd_y upd))"

text \<open>
  The text \<open>regex.exec\<close> works on when \<open>getAttribute('d')\<close> is \<open>null\<close> is the string
  \<open>null\<close>.
\<close>

definition attrText :: "jsstring option \<Rightarrow> jsstring" where
  "attrText a = (case a of None \<Rightarrow> js ''null'' | Some s \<Rightarrow> s)"

text \<open>
  \<open>updatePath(updateData)\<close>. Assigning a property on \<open>undefined\<close> (no command at the
  index) raises a TypeError, and so does \<open>generatePath\<close> when no attached element has
  the id of \<open>pathElem\<close>. A reference past the end of the document stands for an
  editor without a path element, on which \<open>getAttribute\<close> raises a TypeError as
  well. The result is the document with the new \<open>d\<close> attribute and the editor with
  its markers redrawn.
\<close>

definition updatePath :: "dom \<Rightarrow> editor \<Rightarrow> updateData \<Rightarrow> error + (dom \<times> editor)" where
  "updatePath doc ed upd =
     (if length doc \<le> pathElem ed then Inl TypeError
      else
        let el = doc ! pathElem ed;
            parsedPathData = parsePath (attrText (attr_d el))
        in case arrayIndex (upd_index upd) of
             None \<Rightarrow> Inl TypeError
           | Some i \<Rightarrow>
               if length parsedPathData \<le> i then Inl TypeError
               else
                 let mutated = parsedPathData[i := movePoint upd (parsedPathData ! i)] in
                 case generatePath doc mutated (elem_id el) of
                   Inl err \<Rightarrow> Inl err
                 | Inr newD \<Rightarrow>
                     Inr (doc[pathElem ed := el\<lparr>attr_d := Some newD\<rparr>],
                          ed\<lparr>markers := drawMarkers mutated\<rparr>))"

section \<open>PresetManagerFactory\<close>

text \<open>
  A preset's data is opaque to the manager: a primitive value (those of \<open>jsval\<close>, a
  BigInt or a symbol), a reference to an object of the caller, the object
  \<open>document.all\<close>, or one of the objects every plain object inherits from
  \<open>Object.prototype\<close> (\<open>Builtin k\<close> is what the inherited property \<open>k\<close> reads as).
\<close>

datatype blob = Prim jsval | BigInt int | Symbol nat | Ref nat | DocumentAll | Builtin string

text \<open>
  ToBoolean, as \<open>||\<close> and \<open>if\<close> apply it: every object is truthy but \<open>document.all\<close>.
\<close>

definition truthy :: "blob \<Rightarrow> bool" where
  "truthy v =
     (case v of
        Ref r \<Rightarrow> True
      | Builtin k \<Rightarrow> True
      | Symbol s \<Rightarrow> True
      | DocumentAll \<Rightarrow> False
      | BigInt n \<Rightarrow> n \<noteq> 0
      | Prim p \<Rightarrow>
          (case p of
             Undefined \<Rightarrow> False
           | Null \<Rightarrow> False
           | Bool b \<Rightarrow> b
           | Num n \<Rightarrow> (case n of NaN \<Rightarrow> False | Fin m e \<Rightarrow> m \<noteq> 0 | _ \<Rightarrow> True)
           | Str s \<Rightarrow> s \<noteq> []))"

text \<open>
  \<open>presets\<close> is a plain object created by \<open>{}\<close>: its own properties in creation
  order; its prototype is \<open>Object.prototype\<close>, whose properties are below, as the
  language defines them.
\<close>

type_synonym presetsObj = "(jsstring \<times> blob) list"

definition objectPrototypeKeys :: "string list" where
  "objectPrototypeKeys =
     [''constructor'', ''__defineGetter__'', ''__defineSetter__'', ''hasOwnProperty'',
      ''__lookupGetter__'', ''__lookupSetter__'', ''isPrototypeOf'',
      ''propertyIsEnumerable'', ''toString'', ''valueOf'', ''__proto__'',
      ''toLocaleString'']"

text \<open>\<open>presets[name]\<close>: the own property, else the inherited one, else \<open>undefined\<close>.\<close>

definition readProperty :: "presetsObj \<Rightarrow> jsstring \<Rightarrow> blob" where
  "readProperty obj name =
     (case map_of obj name of
        Some v \<Rightarrow> v
      | None \<Rightarrow>
          (case find (\<lambda>k. js k = name) objectPrototypeKeys of
             Some k \<Rightarrow> Builtin k
           | None \<Rightarrow> Prim Undefined))"

text \<open>
  \<open>presets[name] = data\<close>: creates the own property or overwrites it in place. The
  one key that is not stored is \<open>__proto__\<close>: the assignment reaches the setter
  inherited from \<open>Object.prototype\<close> and creates no own property. That setter does
  nothing more when \<open>data\<close> is a primitive value other than \<open>null\<close>. When \<open>data\<close> is
  an object or \<open>null\<close> it replaces the prototype of \<open>presets\<close>, and from then on
  reads and writes of \<open>presets\<close> go through an object of the caller's: the model
  keeps no prototype and describes \<open>presets\<close> up to such an assignment only. The
  properties below are stated for managers on which none was made
  (\<open>replacesPrototype\<close>).
\<close>

definition writeProperty :: "presetsObj \<Rightarrow> jsstring \<Rightarrow> blob \<Rightarrow> presetsObj" where
  "writeProperty obj name data =
     (if name = js ''__proto__'' then obj else AList.update name data obj)"

text \<open>
  An array index is the canonical decimal text of an integer from 0 to
  \<open>2^32 - 2\<close>. \<open>Object.keys\<close> lists the own keys that are array indices first, by
  ascending number, then the other keys in creation order.
\<close>

definition isArrayIndex :: "jsstring \<Rightarrow> bool" where
  "isArrayIndex s \<longleftrightarrow>
     s \<noteq> [] \<and> list_all isDigit s \<and> (s = js ''0'' \<or> hd s \<noteq> ch CHR ''0'') \<and>
     digitsValue 10 s < 4294967295"

definition objectKeys :: "presetsObj \<Rightarrow> jsstring list" where
  "objectKeys obj =
     sort_key (digitsValue 10) (filter isArrayIndex (map fst obj)) @
     filter (\<lambda>k. \<not> isArrayIndex k) (map fst obj)"

text \<open>
  The state closed over by one manager instance. \<open>presetCounter\<close> is a natural
  number here; the JavaScript number counts exactly up to \<open>2^53\<close>.
\<close>

record manager =
  presets :: presetsObj
  presetCounter :: nat

definition PresetManagerFactory :: manager where
  "PresetManagerFactory = \<lparr>presets = [], presetCounter = 0\<rparr>"

definition savePreset :: "manager \<Rightarrow> jsstring \<Rightarrow> blob \<Rightarrow> manager" where
  "savePreset m name data = m\<lparr>presets := writeProperty (presets m) name data\<rparr>"

text \<open>\<open>presets[name] || null\<close>.\<close>

definition getPreset :: "manager \<Rightarrow> jsstring \<Rightarrow> blob" where
  "getPreset m name =
     (if truthy (readProperty (presets m) name) then readProperty (presets m) name
      else Prim Null)"

definition getPresetNames :: "manager \<Rightarrow> jsstring list" where
  "getPresetNames m = objectKeys (presets m)"

subsection \<open>The page and setup\<close>

text \<open>
  \<open>document.querySelector\<close> raises a SyntaxError on a selector that does not parse,
  returns \<open>null\<close> when nothing matches, and the first matching element otherwise.
  The page gives the answer for every selector text; elements are referred to by
  position.
\<close>

datatype query = InvalidSelector | NoElement | Found nat

record selectors =
  saveButton :: jsstring
  applyButton :: jsstring
  animateButton :: jsstring
  presetSelect :: jsstring

text \<open>
  The \<open>config\<close> argument of \<open>setup\<close>. The three callbacks are code of the caller,
  which can reach the manager through the object the factory returned
  (\<open>savePreset\<close>): a callback is given by what a call of it does to the manager,
  the identity when it leaves the manager alone. \<open>getInitialData\<close> gives its
  result as well, \<open>None\<close> when the call raises. A call of \<open>applyData\<close> or
  \<open>animateData\<close> is also recorded in the page.
\<close>

record config =
  presetNamePrefix :: jsstring
  getInitialData :: "manager \<Rightarrow> blob option \<times> manager"
  applyData :: "blob \<Rightarrow> manager \<Rightarrow> manager"
  animateData :: "blob \<Rightarrow> manager \<Rightarrow> manager"
  selectors :: selectors

text \<open>
  A click listener is one of the three that \<open>setup\<close> adds, or a listener of the
  page's own: caller code again, given by whether it calls \<open>stopPropagation\<close> or
  \<open>stopImmediatePropagation\<close> on the event, whether it calls \<open>preventDefault\<close>,
  and what it does to the manager.
\<close>

datatype propagation = Continues | StopsPropagation | StopsImmediately

datatype handler =
    SaveClick config
  | ApplyClick config
  | AnimateClick config
  | PageListener propagation bool "manager \<Rightarrow> manager"

datatype call = ApplyData blob | AnimateData blob

text \<open>
  What \<open>element.click\<close> is: the \<open>click()\<close> method every HTML element inherits from
  \<open>HTMLElement\<close>; a function of the caller's (an own property, or the method of a
  custom element), given by what it does to the manager; or nothing callable, as on
  an SVG or MathML element, which has no \<open>click\<close> method.
\<close>

datatype clickMethod = NotCallable | StandardClick | CallerClick "manager \<Rightarrow> manager"

text \<open>
  What follows a click event that no listener cancelled, when the element or the
  nearest ancestor that has one has an activation behaviour: a label clicks its
  control, which dispatches a second click event at the control; other behaviours
  (a submit button submits its form, a checkbox changes) fire events of other
  types, whose listeners are caller code, given by what they do to the manager.
\<close>

datatype activation = NoActivation | ClicksControl nat | RunsCode "manager \<Rightarrow> manager"

text \<open>
  The page lists its nodes: the elements, and the document and the window, which
  sit on the path of every event. Of a node the model keeps what its \<open>click\<close>
  property is; whether it is a \<open>select\<close> element; whether it is a disabled form
  control; whether a \<open>click()\<close> call on it is under way; the path of an event
  dispatched at it, from the window inwards, the node itself last; its capturing
  and its other click listeners, each in the order added; the activation behaviour
  that a click on it triggers; its \<open>option\<close> children as pairs of \<open>value\<close> and
  text; and its \<open>value\<close> property (empty when it has none).
\<close>

record pelement =
  clickMethod :: clickMethod
  isSelect :: bool
  disabled :: bool
  clickInProgress :: bool
  eventPath :: "nat list"
  capturing :: "handler list"
  listeners :: "handler list"
  activation :: activation
  options :: "(jsstring \<times> jsstring) list"
  elValue :: jsstring

record page =
  querySelector :: "jsstring \<Rightarrow> query"
  elements :: "pelement list"
  calls :: "call list"

text \<open>
  \<open>updatePresetSelect(selector)\<close>: the placeholder option, then one option per
  preset name. A \<open>select\<close> element whose options were replaced shows the
  placeholder, whose value is empty; another element keeps its \<open>value\<close>.
\<close>

definition updatePresetSelect :: "manager \<Rightarrow> page \<Rightarrow> jsstring \<Rightarrow> error + page" where
  "updatePresetSelect m pg selector =
     (case querySelector pg selector of
        InvalidSelector \<Rightarrow> Inl SyntaxError
      | NoElement \<Rightarrow> Inr pg
      | Found r \<Rightarrow>
          Inr (pg\<lparr>elements := (elements pg)
                 [r := (elements pg ! r)
                    \<lparr>options := ([], js ''Select a Preset'') #
                                 map (\<lambda>name. (name, name)) (getPresetNames m),
                     elValue := (if isSelect (elements pg ! r) then []
                                 else elValue (elements pg ! r))\<rparr>]\<rparr>))"

text \<open>
  The click listener of the save button. An exception inside a listener is reported
  and ends that listener only: what it did before stays done. So nothing is saved
  when \<open>getInitialData()\<close> raises, and the preset stays saved when
  \<open>updatePresetSelect\<close> raises.
\<close>

definition saveClick :: "config \<Rightarrow> manager \<times> page \<Rightarrow> manager \<times> page" where
  "saveClick cfg st =
     (case getInitialData cfg (fst st) of
        (None, m0) \<Rightarrow> (m0, snd st)
      | (Some currentData, m0) \<Rightarrow>
          (let m1 = m0\<lparr>presetCounter := Suc (presetCounter m0)\<rparr>;
               presetName = presetNamePrefix cfg @ natDigits (presetCounter m1);
               m2 = savePreset m1 presetName currentData
           in case updatePresetSelect m2 (snd st) (presetSelect (selectors cfg)) of
                Inl err \<Rightarrow> (m2, snd st)
              | Inr pg \<Rightarrow> (m2, pg)))"

text \<open>
  The selected preset of the apply and animate listeners, when there is one:
  \<open>selectElement.value\<close> is not empty and \<open>getPreset\<close> finds a truthy value.
\<close>

definition selectedPresetData :: "config \<Rightarrow> manager \<times> page \<Rightarrow> blob option" where
  "selectedPresetData cfg st =
     (case querySelector (snd st) (presetSelect (selectors cfg)) of
        Found r \<Rightarrow>
          (let selectedPreset = elValue (elements (snd st) ! r) in
           if selectedPreset \<noteq> [] \<and> truthy (getPreset (fst st) selectedPreset)
           then Some (getPreset (fst st) selectedPreset) else None)
      | _ \<Rightarrow> None)"

definition applyClick :: "config \<Rightarrow> manager \<times> page \<Rightarrow> manager \<times> page" where
  "applyClick cfg st =
     (case selectedPresetData cfg st of
        None \<Rightarrow> st
      | Some presetData \<Rightarrow>
          (applyData cfg presetData (fst st),
           (snd st)\<lparr>calls := calls (snd st) @ [ApplyData presetData]\<rparr>))"

definition animateClick :: "config \<Rightarrow> manager \<times> page \<Rightarrow> manager \<times> page" where
  "animateClick cfg st =
     (case selectedPresetData cfg st of
        None \<Rightarrow> st
      | Some targetPreset \<Rightarrow>
          (animateData cfg targetPreset (fst st),
           (snd st)\<lparr>calls := calls (snd st) @ [AnimateData targetPreset]\<rparr>))"

fun runHandler :: "manager \<times> page \<Rightarrow> handler \<Rightarrow> manager \<times> page" where
  "runHandler st (SaveClick cfg) = saveClick cfg st"
| "runHandler st (ApplyClick cfg) = applyClick cfg st"
| "runHandler st (AnimateClick cfg) = animateClick cfg st"
| "runHandler st (PageListener p c effect) = (effect (fst st), snd st)"

text \<open>The listeners that \<open>setup\<close> adds neither stop nor cancel the event.\<close>

fun stops :: "handler \<Rightarrow> propagation" where
  "stops (PageListener p c effect) = p"
| "stops h = Continues"

fun preventsDefault :: "handler \<Rightarrow> bool" where
  "preventsDefault (PageListener p c effect) = c"
| "preventsDefault h = False"

text \<open>
  The listeners of one node run in order. \<open>stopImmediatePropagation\<close> ends the
  dispatch after the listener that called it; \<open>stopPropagation\<close> lets the other
  listeners of the node run and ends the dispatch after them. The result tells
  whether the event was stopped and whether it was cancelled.
\<close>

fun runNode :: "manager \<times> page \<Rightarrow> handler list \<Rightarrow> (manager \<times> page) \<times> bool \<times> bool" where
  "runNode st [] = (st, False, False)"
| "runNode st (h # hs) =
     (if stops h = StopsImmediately then (runHandler st h, True, preventsDefault h)
      else case runNode (runHandler st h) hs of
             (st', stopped, cancelled) \<Rightarrow>
               (st', stopped \<or> stops h = StopsPropagation, cancelled \<or> preventsDefault h))"

text \<open>The nodes of a path in order, up to one that stops the event.\<close>

fun runPath :: "manager \<times> page \<Rightarrow> handler list list \<Rightarrow> (manager \<times> page) \<times> bool" where
  "runPath st [] = (st, False)"
| "runPath st (n # ns) =
     (case runNode st n of
        (st', stopped, cancelled) \<Rightarrow>
          if stopped then (st', cancelled)
          else case runPath st' ns of (st'', cancelled') \<Rightarrow> (st'', cancelled \<or> cancelled'))"

text \<open>
  A click event dispatched at a node: the capturing listeners along its path, from
  the window to the node, then the other listeners back out, from the node to the
  window. The listeners are those the nodes have when the event is dispatched.
\<close>

definition dispatchClick :: "nat \<Rightarrow> manager \<times> page \<Rightarrow> (manager \<times> page) \<times> bool" where
  "dispatchClick r st =
     (let els = elements (snd st);
          path = eventPath (els ! r)
      in runPath st (map (\<lambda>i. capturing (els ! i)) path @
                     map (\<lambda>i. listeners (els ! i)) (rev path)))"

text \<open>
  A click event and what follows it: the activation behaviour, unless a listener
  cancelled the event. The click that a label gives its control is followed by the
  control's own behaviour.
\<close>

definition clickEvent :: "nat \<Rightarrow> manager \<times> page \<Rightarrow> manager \<times> page" where
  "clickEvent r st =
     (case dispatchClick r st of
        (st', cancelled) \<Rightarrow>
          if cancelled then st'
          else case activation (elements (snd st) ! r) of
                 NoActivation \<Rightarrow> st'
               | RunsCode effect \<Rightarrow> (effect (fst st'), snd st')
               | ClicksControl c \<Rightarrow>
                   (case dispatchClick c st' of
                      (st'', cancelled') \<Rightarrow>
                        if cancelled' then st''
                        else case activation (elements (snd st) ! c) of
                               RunsCode effect \<Rightarrow> (effect (fst st''), snd st'')
                             | _ \<Rightarrow> st''))"

text \<open>
  \<open>element.click()\<close>. A TypeError when the element has nothing callable under
  \<open>click\<close>. The method of \<open>HTMLElement\<close> does nothing on a disabled form control
  and nothing while another \<open>click()\<close> call on the element is under way; otherwise
  it dispatches a click event at the element.
\<close>

definition click :: "nat \<Rightarrow> manager \<times> page \<Rightarrow> error option \<times> manager \<times> page" where
  "click r st =
     (let el = elements (snd st) ! r in
      case clickMethod el of
        NotCallable \<Rightarrow> (Some TypeError, st)
      | CallerClick effect \<Rightarrow> (None, effect (fst st), snd st)
      | StandardClick \<Rightarrow>
          (None, if disabled el \<or> clickInProgress el then st else clickEvent r st))"

definition addEventListener :: "query \<Rightarrow> handler \<Rightarrow> page \<Rightarrow> page" where
  "addEventListener q h pg =
     (case q of
        Found r \<Rightarrow>
          pg\<lparr>elements := (elements pg)
                [r := (elements pg ! r)\<lparr>listeners := listeners (elements pg ! r) @ [h]\<rparr>]\<rparr>
      | _ \<Rightarrow> pg)"

text \<open>
  \<open>setup(config)\<close> (named \<open>setupPresets\<close> here): the three \<open>querySelector\<close> calls come first, so a selector that
  does not parse ends \<open>setup\<close> before any listener is added. The call
  \<open>saveButton.click()\<close> comes last: when it raises, the listeners are on their
  elements already. The result is the error raised, if any, and the manager and the
  page as \<open>setup\<close> leaves them.
\<close>

definition setupPresets :: "manager \<Rightarrow> page \<Rightarrow> config \<Rightarrow> error option \<times> manager \<times> page" where
  "setupPresets m pg cfg =
     (let saveBtn = querySelector pg (saveButton (selectors cfg));
          applyBtn = querySelector pg (applyButton (selectors cfg));
          animateBtn = querySelector pg (animateButton (selectors cfg))
      in if saveBtn = InvalidSelector \<or> applyBtn = InvalidSelector \<or>
            animateBtn = InvalidSelector then (Some SyntaxError, m, pg)
         else
           let pg3 = addEventListener animateBtn (AnimateClick cfg)
                       (addEventListener applyBtn (ApplyClick cfg)
                          (addEventListener saveBtn (SaveClick cfg) pg))
           in case saveBtn of
                Found r \<Rightarrow> click r (m, pg3)
              | _ \<Rightarrow> (None, m, pg3))"

section \<open>Definitions used to state the properties\<close>

text \<open>
  The fields the specification gives each command letter, in the order of their
  arguments: \<open>x, y\<close> for M and L, the two control points and the end point for C,
  radii, rotation, flags and end point for A, none for Z.
\<close>

definition fieldsOf :: "jschar \<Rightarrow> string list" where
  "fieldsOf c =
     (if c = ch CHR ''M'' \<or> c = ch CHR ''m'' \<or> c = ch CHR ''L'' \<or> c = ch CHR ''l''
        then [''x'', ''y'']
      else if c = ch CHR ''C'' \<or> c = ch CHR ''c''
        then [''x1'', ''y1'', ''x2'', ''y2'', ''x'', ''y'']
      else if c = ch CHR ''A'' \<or> c = ch CHR ''a''
        then [''rx'', ''ry'', ''xAxisRotation'', ''largeArcFlag'', ''sweepFlag'', ''x'', ''y'']
      else [])"

text \<open>
  The layout the specification gives \<open>generatePath\<close>: after the command letter and
  a space, the fields of the letter in positional order, each followed by its
  separator.
\<close>

definition layoutOf :: "jsval \<Rightarrow> (string \<times> string) list" where
  "layoutOf command =
     (if command \<in> set (map (\<lambda>l. Str (js l)) [''M'', ''m'', ''L'', ''l''])
        then [(''x'', '',''), (''y'', '' '')]
      else if command \<in> set (map (\<lambda>l. Str (js l)) [''C'', ''c''])
        then [(''x1'', '',''), (''y1'', '' ''), (''x2'', '',''), (''y2'', '' ''),
              (''x'', '',''), (''y'', '' '')]
      else if command \<in> set (map (\<lambda>l. Str (js l)) [''A'', ''a''])
        then [(''rx'', '',''), (''ry'', '' ''), (''xAxisRotation'', '' ''),
              (''largeArcFlag'', '',''), (''sweepFlag'', '' ''), (''x'', '',''), (''y'', '' '')]
      else [])"

definition segment :: "commandObj \<Rightarrow> jsstring" where
  "segment obj =
     jsToString (getProp obj ''command'') @ js '' '' @
     concat (map (\<lambda>(f, sep). jsToString (getProp obj f) @ js sep)
               (layoutOf (getProp obj ''command'')))"

text \<open>The fields \<open>updatePath\<close> is specified to change, by point type.\<close>

definition movedFields :: "jsstring \<Rightarrow> string list" where
  "movedFields pointType =
     (if pointType = js ''C1'' then [''x1'', ''y1'']
      else if pointType = js ''C2'' then [''x2'', ''y2'']
      else [''x'', ''y''])"

text \<open>
  A sequence of \<open>savePreset\<close> calls on one manager, and the names of a sequence in
  the order of their first occurrence.
\<close>

definition saveAll :: "manager \<Rightarrow> (jsstring \<times> blob) list \<Rightarrow> manager" where
  "saveAll m saves = foldl (\<lambda>m' (name, data). savePreset m' name data) m saves"

definition firstOccurrences :: "'a list \<Rightarrow> 'a list" where
  "firstOccurrences xs = rev (remdups (rev xs))"




text \<open>
  Command objects that survive a round trip through the \<open>d\<close> attribute: the
  properties are \<open>command\<close> and the fields of the letter, and every field is a number
  whose text has no letter, space or comma and reads back as the same number (a
  number printed in exponent notation, \<open>NaN\<close> or \<open>undefined\<close> does not).
\<close>

definition plainText :: "jsstring \<Rightarrow> bool" where
  "plainText s \<longleftrightarrow> s \<noteq> [] \<and> list_all (\<lambda>c. \<not> isLetter c \<and> \<not> isSeparator c) s"

definition plainNumber :: "jsval \<Rightarrow> bool" where
  "plainNumber v =
     (case v of
        Num n \<Rightarrow> plainText (numberToString n) \<and> Number (numberToString n) = n
      | _ \<Rightarrow> False)"

fun wellFormedCommand :: "commandObj \<Rightarrow> bool" where
  "wellFormedCommand ((k, Str [c]) # props) =
     (k = ''command'' \<and> isCommandLetter c \<and> map fst props = fieldsOf c \<and>
      list_all (\<lambda>p. plainNumber (snd p)) props)"
| "wellFormedCommand obj = False"

text \<open>
  Tokens written one after the other, each followed by its separator character,
  and the same text without the last separator.
\<close>

fun joinTokens :: "(jsstring \<times> jschar) list \<Rightarrow> jsstring" where
  "joinTokens [] = []"
| "joinTokens ((t, s) # ts) = t @ s # joinTokens ts"

fun joinInner :: "(jsstring \<times> jschar) list \<Rightarrow> jsstring" where
  "joinInner [] = []"
| "joinInner [(t, s)] = t"
| "joinInner ((t, s) # ts) = t @ s # joinInner ts"

text \<open>
  A numeric token of an argument run: after an optional sign (taken off by
  \<open>withoutSign\<close>), digits with at most one decimal point and at least one digit.
\<close>

definition isDecimalToken :: "jsstring \<Rightarrow> bool" where
  "isDecimalToken t \<longleftrightarrow>
     (\<exists>ip fp. list_all isDigit ip \<and> list_all isDigit fp \<and>
        ((ip \<noteq> [] \<and> t = ip) \<or> ((ip \<noteq> [] \<or> fp \<noteq> []) \<and> t = ip @ ch CHR ''.'' # fp)))"

definition withoutSign :: "jsstring \<Rightarrow> jsstring" where
  "withoutSign t = (if t \<noteq> [] \<and> (hd t = ch CHR ''+'' \<or> hd t = ch CHR ''-'') then tl t else t)"

text \<open>
  Concrete inputs: a path element whose \<open>d\<close> is the specification's example, a drag
  of its first point to (5,5), and a page with one enabled HTML button (node 1)
  under a document (node 0) that has a click listener of its own, with callbacks
  that leave the manager alone.
\<close>

definition exampleDoc :: dom where
  "exampleDoc = [\<lparr>elem_id = js ''p'', attr_d = Some (js ''M 10,10 L 20,20 Z''), inDocument = True\<rparr>]"

definition exampleUpdate :: updateData where
  "exampleUpdate = \<lparr>upd_x = Num (Fin 5 0), upd_y = Num (Fin 5 0), upd_index = Fin 0 0,
                     upd_pointType = js ''endpoint''\<rparr>"



section \<open>Properties of parsePath\<close>

lemma isCommandLetter_isLetter: "isCommandLetter c \<Longrightarrow> isLetter c"
  by (auto simp: isCommandLetter_def isLetter_def ch_def)

lemma isWhiteSpace_not_isLetter: "isWhiteSpace c \<Longrightarrow> \<not> isLetter c"
  unfolding isWhiteSpace_def isLetter_def
  by (elim disjE conjE; simp add: word_le_nat_alt)

lemma regexExec_letter: "regexExec d = Some (c, g, rest) \<Longrightarrow> isCommandLetter c"
  by (induction d) (auto simp: Let_def split: if_splits)

lemma dropWhile_space_append:
  assumes "t = [] \<or> isLetter (hd t)"
  shows "dropWhile isWhiteSpace (p @ t) = dropWhile isWhiteSpace p @ t"
proof (cases t)
  case Nil
  then show ?thesis by simp
next
  case (Cons a u)
  with assms have "\<not> isWhiteSpace a"
    using isWhiteSpace_not_isLetter by auto
  with Cons show ?thesis
    by (induction p) auto
qed

lemma takeWhile_nonletter_append:
  assumes "t = [] \<or> isLetter (hd t)"
  shows "takeWhile (\<lambda>x. \<not> isLetter x) (p @ t) = takeWhile (\<lambda>x. \<not> isLetter x) p"
  using assms by (cases t; induction p) auto

lemma dropWhile_nonletter_append:
  assumes "t = [] \<or> isLetter (hd t)"
  shows "dropWhile (\<lambda>x. \<not> isLetter x) (p @ t) = dropWhile (\<lambda>x. \<not> isLetter x) p @ t"
  using assms by (cases t; induction p) auto

lemma regexExec_append:
  assumes "t = [] \<or> isLetter (hd t)"
  shows "regexExec (p @ t) =
     (case regexExec p of None \<Rightarrow> regexExec t | Some (c, g, rest) \<Rightarrow> Some (c, g, rest @ t))"
proof (induction p)
  case Nil
  then show ?case by simp
next
  case (Cons a p)
  show ?case
  proof (cases "isCommandLetter a")
    case True
    then show ?thesis
      using assms
      by (simp add: Let_def dropWhile_space_append takeWhile_nonletter_append
          dropWhile_nonletter_append)
  next
    case False
    with Cons show ?thesis by simp
  qed
qed

lemma parseLoop_append:
  assumes "t = [] \<or> isLetter (hd t)"
  shows "parseLoop (p @ t) acc = parseLoop t (parseLoop p acc)"
proof (induction p acc rule: parseLoop.induct)
  case (1 d pathData)
  show ?case
  proof (cases "regexExec d")
    case None
    then have "regexExec (d @ t) = regexExec t"
      using regexExec_append [OF assms, of d] by simp
    then have "parseLoop (d @ t) pathData = parseLoop t pathData"
      by (simp add: parseLoop.simps [of "d @ t"] parseLoop.simps [of t])
    moreover from None have "parseLoop d pathData = pathData"
      by (simp add: parseLoop.simps [of d])
    ultimately show ?thesis by simp
  next
    case (Some m)
    obtain c g rest where m: "m = (c, g, rest)" by (cases m)
    with Some have ex: "regexExec (d @ t) = Some (c, g, rest @ t)"
      using regexExec_append [OF assms, of d] by simp
    have "parseLoop (d @ t) pathData = parseLoop (rest @ t) (pathData @ [parseCommand c g])"
      using ex by (simp add: parseLoop.simps [of "d @ t"])
    also have "\<dots> = parseLoop t (parseLoop rest (pathData @ [parseCommand c g]))"
      using "1.IH" Some m by simp
    also have "parseLoop rest (pathData @ [parseCommand c g]) = parseLoop d pathData"
      using Some m by (simp add: parseLoop.simps [of d])
    finally show ?thesis .
  qed
qed

lemma parseLoop_acc: "parseLoop d acc = acc @ parseLoop d []"
proof (induction "length d" arbitrary: d acc rule: less_induct)
  case less
  show ?case
  proof (cases "regexExec d")
    case None
    then show ?thesis by (simp add: parseLoop.simps [of d])
  next
    case (Some m)
    obtain c g rest where m: "m = (c, g, rest)" by (cases m)
    with Some have shorter: "length rest < length d"
      using regexExec_shorter by blast
    have "parseLoop d acc = parseLoop rest (acc @ [parseCommand c g])"
      using Some m by (simp add: parseLoop.simps [of d])
    also have "\<dots> = (acc @ [parseCommand c g]) @ parseLoop rest []"
      using less [OF shorter] .
    also have "\<dots> = acc @ parseLoop rest [parseCommand c g]"
      using less [OF shorter, of "[parseCommand c g]"] by simp
    also have "parseLoop rest [parseCommand c g] = parseLoop d []"
      using Some m by (simp add: parseLoop.simps [of d "[]"])
    finally show ?thesis .
  qed
qed

lemma parsePath_append:
  "t = [] \<or> isLetter (hd t) \<Longrightarrow> parsePath (p @ t) = parsePath p @ parsePath t"
  unfolding parsePath_def
  using parseLoop_append [of t p "[]"] parseLoop_acc [of t "parseLoop p []"] by simp

lemma regexExec_skip:
  "\<forall>x\<in>set p. \<not> isCommandLetter x \<Longrightarrow> regexExec (p @ t) = regexExec t"
  by (induction p) auto

lemma parsePath_skip:
  assumes "\<forall>x\<in>set p. \<not> isCommandLetter x"
  shows "parsePath (p @ t) = parsePath t"
proof -
  have "parseLoop (p @ t) [] =
          (case regexExec (p @ t) of None \<Rightarrow> []
           | Some (command, match2, rest) \<Rightarrow> parseLoop rest ([] @ [parseCommand command match2]))"
    by (rule parseLoop.simps)
  also have "\<dots> =
          (case regexExec t of None \<Rightarrow> []
           | Some (command, match2, rest) \<Rightarrow> parseLoop rest ([] @ [parseCommand command match2]))"
    using regexExec_skip [OF assms] by simp
  also have "\<dots> = parseLoop t []"
    by (rule parseLoop.simps [symmetric])
  finally show ?thesis by (simp add: parsePath_def)
qed

lemma parsePath_command:
  assumes c: "isCommandLetter c" and args: "\<forall>x\<in>set args. \<not> isLetter x"
    and t: "t = [] \<or> isLetter (hd t)"
  shows "parsePath (c # args @ t) =
           parseCommand c (if dropWhile isWhiteSpace args = [] then None
                           else Some (dropWhile isWhiteSpace args)) # parsePath t"
proof -
  have sub: "set (dropWhile isWhiteSpace args) \<subseteq> set args"
    by (simp add: set_dropWhileD subsetI)
  have nl: "\<forall>x\<in>set (dropWhile isWhiteSpace args). \<not> isLetter x"
    using args sub by blast
  have tw: "takeWhile (\<lambda>x. \<not> isLetter x) (dropWhile isWhiteSpace args @ t)
              = dropWhile isWhiteSpace args"
    using takeWhile_nonletter_append [OF t, of "dropWhile isWhiteSpace args"] nl
    by (simp add: takeWhile_eq_all_conv)
  have dw: "dropWhile (\<lambda>x. \<not> isLetter x) (dropWhile isWhiteSpace args @ t) = t"
    using dropWhile_nonletter_append [OF t, of "dropWhile isWhiteSpace args"] nl
    by (simp add: dropWhile_eq_Nil_conv)
  have "regexExec (c # args @ t) =
          Some (c, if dropWhile isWhiteSpace args = [] then None
                   else Some (dropWhile isWhiteSpace args), t)"
    using c by (simp add: Let_def dropWhile_space_append [OF t] tw dw)
  then show ?thesis
    unfolding parsePath_def
    using parseLoop_acc [of t "[parseCommand c (if dropWhile isWhiteSpace args = [] then None
                           else Some (dropWhile isWhiteSpace args))]"]
    by (simp add: parseLoop.simps [of "c # args @ t"])
qed

lemma getProp_setProp:
  "getProp (setProp obj k v) k' = (if k' = k then v else getProp obj k')"
  by (simp add: getProp_def setProp_def update_conv')

lemma parseCommand_keys:
  "isCommandLetter c \<Longrightarrow> map fst (parseCommand c g) = ''command'' # fieldsOf c"
  unfolding isCommandLetter_def
  by (elim disjE; simp add: parseCommand_def fieldsOf_def setProp_def ch_def Let_def)

lemma parseCommand_command: "getProp (parseCommand c g) ''command'' = Str [c]"
  by (simp add: parseCommand_def Let_def getProp_setProp) (simp add: getProp_def)

lemma parseLoop_members:
  "obj \<in> set (parseLoop d acc) \<Longrightarrow>
     obj \<in> set acc \<or> (\<exists>c g. isCommandLetter c \<and> obj = parseCommand c g)"
proof (induction d acc rule: parseLoop.induct)
  case (1 d pathData)
  show ?case
  proof (cases "regexExec d")
    case None
    with "1.prems" show ?thesis by (simp add: parseLoop.simps [of d])
  next
    case (Some m)
    obtain c g rest where m: "m = (c, g, rest)" by (cases m)
    from Some m have c: "isCommandLetter c" using regexExec_letter by blast
    from "1.prems" Some m have "obj \<in> set (parseLoop rest (pathData @ [parseCommand c g]))"
      by (simp add: parseLoop.simps [of d])
    then have "obj \<in> set (pathData @ [parseCommand c g]) \<or>
        (\<exists>c g. isCommandLetter c \<and> obj = parseCommand c g)"
      using "1.IH" Some m by simp
    with c show ?thesis by auto
  qed
qed

lemma trim_dropWhile: "trim (dropWhile isWhiteSpace s) = trim s"
  unfolding trim_def by (simp only: dropWhile_idem)

lemma trim_blank: "dropWhile isWhiteSpace s = [] \<Longrightarrow> trim s = []"
  unfolding trim_def by (simp del: dropWhile_eq_Nil_conv)

lemma parseCommand_field:
  assumes "k < length (fieldsOf c)"
  shows "getProp (parseCommand c g) (fieldsOf c ! k) =
           coordAt (map Number (split (trim (case g of None \<Rightarrow> [] | Some s \<Rightarrow> s)))) k"
proof -
  consider "c = ch CHR ''M'' \<or> c = ch CHR ''m'' \<or> c = ch CHR ''L'' \<or> c = ch CHR ''l''"
    | "c = ch CHR ''C'' \<or> c = ch CHR ''c''" | "c = ch CHR ''A'' \<or> c = ch CHR ''a''"
    using assms by (auto simp: fieldsOf_def split: if_splits)
  then show ?thesis
  proof cases
    case 1
    then have f: "fieldsOf c = [''x'', ''y'']" by (auto simp: fieldsOf_def)
    with assms have "k = 0 \<or> k = 1" by auto
    with 1 f show ?thesis
      by (elim disjE; simp add: parseCommand_def Let_def getProp_setProp ch_def)
  next
    case 2
    then have f: "fieldsOf c = [''x1'', ''y1'', ''x2'', ''y2'', ''x'', ''y'']"
      by (auto simp: fieldsOf_def ch_def)
    with assms have "k = 0 \<or> k = 1 \<or> k = 2 \<or> k = 3 \<or> k = 4 \<or> k = 5" by auto
    with 2 f show ?thesis
      by (elim disjE; simp add: parseCommand_def Let_def getProp_setProp ch_def)
  next
    case 3
    then have f: "fieldsOf c =
        [''rx'', ''ry'', ''xAxisRotation'', ''largeArcFlag'', ''sweepFlag'', ''x'', ''y'']"
      by (auto simp: fieldsOf_def ch_def)
    with assms have "k = 0 \<or> k = 1 \<or> k = 2 \<or> k = 3 \<or> k = 4 \<or> k = 5 \<or> k = 6" by auto
    with 3 f show ?thesis
      by (elim disjE; simp add: parseCommand_def Let_def getProp_setProp ch_def)
  qed
qed

text \<open>
  Claim C8. Every command object that \<open>parsePath\<close> returns carries a supported
  command letter, and its properties are exactly \<open>command\<close> followed by the fields
  of that letter's schema: \<open>x, y\<close> for M/m/L/l, \<open>x1, y1, x2, y2, x, y\<close> for C/c,
  \<open>rx, ry, xAxisRotation, largeArcFlag, sweepFlag, x, y\<close> for A/a and no field for
  Z/z. A field is present also when its value is \<open>undefined\<close>.
\<close>

theorem parsePath_fields:
  "\<forall>obj\<in>set (parsePath d). \<exists>c. isCommandLetter c \<and> getProp obj ''command'' = Str [c] \<and>
      map fst obj = ''command'' # fieldsOf c"
proof
  fix obj
  assume "obj \<in> set (parsePath d)"
  then obtain c g where "isCommandLetter c" and "obj = parseCommand c g"
    using parseLoop_members [of obj d "[]"] by (auto simp: parsePath_def)
  then show "\<exists>c. isCommandLetter c \<and> getProp obj ''command'' = Str [c] \<and>
      map fst obj = ''command'' # fieldsOf c"
    using parseCommand_keys parseCommand_command by blast
qed

theorem parsePath_fields_witness:
  "map fst (hd (parsePath (js ''C 1,1 2,2 3,3''))) =
     [''command'', ''x1'', ''y1'', ''x2'', ''y2'', ''x'', ''y'']"
proof -
  have p: "parsePath (js ''C 1,1 2,2 3,3'') =
      [[(''command'', Str (js ''C'')), (''x1'', Num (Fin 1 0)), (''y1'', Num (Fin 1 0)),
        (''x2'', Num (Fin 2 0)), (''y2'', Num (Fin 2 0)), (''x'', Num (Fin 3 0)),
        (''y'', Num (Fin 3 0))]]"
    by code_simp
  from parsePath_fields [of "js ''C 1,1 2,2 3,3''"]
  obtain c where c: "getProp (hd (parsePath (js ''C 1,1 2,2 3,3''))) ''command'' = Str [c]"
    and k: "map fst (hd (parsePath (js ''C 1,1 2,2 3,3''))) = ''command'' # fieldsOf c"
    unfolding p by auto
  from c have "c = ch CHR ''C''"
    unfolding p by (simp add: getProp_def js_def)
  with k show ?thesis by (simp add: fieldsOf_def ch_def)
qed

text \<open>
  Claim C9. A letter outside \<open>MmLlCcAaZz\<close> and the arguments after it leave no
  trace: the path with them parses to the same array as the path without them, and
  no object of the result carries a letter outside the supported set. \<open>parsePath\<close>
  is a total function, so no input raises an error.
\<close>

theorem parsePath_drops_unsupported:
  "(isLetter h \<and> \<not> isCommandLetter h \<and> (\<forall>x\<in>set args. \<not> isLetter x) \<and>
      (rest = [] \<or> isLetter (hd rest))
      \<longrightarrow> parsePath (pre @ h # args @ rest) = parsePath (pre @ rest)) \<and>
   (\<forall>obj\<in>set (parsePath d). \<exists>c. isCommandLetter c \<and> getProp obj ''command'' = Str [c])"
proof (intro conjI impI ballI)
  assume a: "isLetter h \<and> \<not> isCommandLetter h \<and> (\<forall>x\<in>set args. \<not> isLetter x) \<and>
      (rest = [] \<or> isLetter (hd rest))"
  then have skip: "\<forall>x\<in>set (h # args). \<not> isCommandLetter x"
    using isCommandLetter_isLetter by auto
  have "parsePath (pre @ h # args @ rest) = parsePath pre @ parsePath ((h # args) @ rest)"
    using a parsePath_append [of "h # args @ rest" pre] by simp
  also have "parsePath ((h # args) @ rest) = parsePath rest"
    using skip by (rule parsePath_skip)
  also have "parsePath pre @ parsePath rest = parsePath (pre @ rest)"
    using a parsePath_append [of rest pre] by simp
  finally show "parsePath (pre @ h # args @ rest) = parsePath (pre @ rest)" .
next
  fix obj
  assume "obj \<in> set (parsePath d)"
  then obtain c g where "isCommandLetter c" and "obj = parseCommand c g"
    using parseLoop_members [of obj d "[]"] by (auto simp: parsePath_def)
  then show "\<exists>c. isCommandLetter c \<and> getProp obj ''command'' = Str [c]"
    using parseCommand_command by blast
qed

theorem parsePath_drops_unsupported_witness:
  "parsePath (js ''M 1,2 H 5 L 3,4'') = parsePath (js ''M 1,2 L 3,4'') \<and>
   (\<exists>c. isCommandLetter c \<and> getProp (hd (parsePath (js ''M 1,2 H 5 L 3,4''))) ''command'' = Str [c])"
proof -
  have p: "parsePath (js ''M 1,2 H 5 L 3,4'') =
      [[(''command'', Str (js ''M'')), (''x'', Num (Fin 1 0)), (''y'', Num (Fin 2 0))],
       [(''command'', Str (js ''L'')), (''x'', Num (Fin 3 0)), (''y'', Num (Fin 4 0))]]"
    by code_simp
  have h: "isLetter (ch CHR ''H'') \<and> \<not> isCommandLetter (ch CHR ''H'') \<and>
      (\<forall>x\<in>set (js '' 5 ''). \<not> isLetter x) \<and> (js ''L 3,4'' = [] \<or> isLetter (hd (js ''L 3,4'')))"
    by (simp add: isLetter_def isCommandLetter_def js_def ch_def)
  have s: "js ''M 1,2 H 5 L 3,4'' = js ''M 1,2 '' @ ch CHR ''H'' # js '' 5 '' @ js ''L 3,4''"
    and s': "js ''M 1,2 L 3,4'' = js ''M 1,2 '' @ js ''L 3,4''"
    by (simp_all add: js_def)
  from parsePath_drops_unsupported
    [of "ch CHR ''H''" "js '' 5 ''" "js ''L 3,4''" "js ''M 1,2 ''" "js ''M 1,2 H 5 L 3,4''"] h
  have 1: "parsePath (js ''M 1,2 H 5 L 3,4'') = parsePath (js ''M 1,2 L 3,4'')"
    and 2: "\<forall>obj\<in>set (parsePath (js ''M 1,2 H 5 L 3,4'')).
         \<exists>c. isCommandLetter c \<and> getProp obj ''command'' = Str [c]"
    unfolding s s' by blast+
  from 2 have "\<exists>c. isCommandLetter c \<and>
      getProp (hd (parsePath (js ''M 1,2 H 5 L 3,4''))) ''command'' = Str [c]"
    unfolding p by simp
  with 1 show ?thesis by simp
qed

section \<open>Properties of generatePath\<close>

lemma emitCommand_segment: "emitCommand acc obj = acc @ segment obj"
  by (simp add: emitCommand_def segment_def layoutOf_def Let_def js_def)

lemma foldl_emitCommand: "foldl emitCommand acc pathData = acc @ concat (map segment pathData)"
  by (induction pathData arbitrary: acc) (simp_all add: emitCommand_segment)

lemma closesWithZ_iff:
  "closesWithZ a = (case a of None \<Rightarrow> False | Some s \<Rightarrow> endsWith (trim s) (js ''Z''))"
  by (cases a) (auto simp: closesWithZ_def endsWith_def trim_def js_def)

text \<open>
  Claim C4. For every array of command objects and every id, \<open>generatePath\<close> writes
  each object as its command letter, a space and the letter's fields in their fixed
  order with their separators, and appends \<open>Z\<close> exactly when the \<open>d\<close> attribute of
  the element found under the id, trimmed, ends with \<open>Z\<close>; the objects passed in
  play no part in that decision. The result is trimmed. Without an element of that
  id there is no attribute to read and the call raises a TypeError.
\<close>

theorem generatePath_layout:
  "generatePath doc pathData pathId =
     (case getElementById doc pathId of
        None \<Rightarrow> Inl TypeError
      | Some el \<Rightarrow>
          Inr (trim (concat (map segment pathData) @
                     (if (case attr_d el of None \<Rightarrow> False
                          | Some s \<Rightarrow> endsWith (trim s) (js ''Z''))
                      then js ''Z'' else []))))"
  by (simp add: generatePath_def Let_def foldl_emitCommand closesWithZ_iff split: option.splits)

lemma endsWith_z_not_Z: "endsWith t (js ''z'') \<Longrightarrow> \<not> endsWith t (js ''Z'')"
  by (auto simp: endsWith_def js_def ch_def)

text \<open>
  Claim C10. The check for the closing letter is case-sensitive: when the \<open>d\<close>
  attribute of the element, trimmed, ends with a lowercase \<open>z\<close>, the result is what
  the loop over the command objects wrote, trimmed, with no \<open>Z\<close> appended.
\<close>

theorem generatePath_lowercase_z:
  assumes "getElementById doc pathId = Some el" and "attr_d el = Some s"
    and "endsWith (trim s) (js ''z'')"
  shows "generatePath doc pathData pathId = Inr (trim (foldl emitCommand [] pathData))"
  using assms endsWith_z_not_Z [of "trim s"]
  by (simp add: generatePath_def Let_def closesWithZ_iff)

theorem generatePath_lowercase_z_witness:
  "generatePath
     [\<lparr>elem_id = js ''p'', attr_d = Some (js ''M 1,2 L 3,4 z''), inDocument = True\<rparr>]
     (parsePath (js ''M 1,2 L 3,4 z'')) (js ''p'') = Inr (js ''M 1,2 L 3,4 z'')"
proof -
  let ?el = "\<lparr>elem_id = js ''p'', attr_d = Some (js ''M 1,2 L 3,4 z''), inDocument = True\<rparr>"
  have 1: "getElementById [?el] (js ''p'') = Some ?el"
    by (simp add: getElementById_def js_def)
  have 2: "attr_d ?el = Some (js ''M 1,2 L 3,4 z'')" by simp
  have 3: "endsWith (trim (js ''M 1,2 L 3,4 z'')) (js ''z'')" by code_simp
  have 4: "trim (foldl emitCommand [] (parsePath (js ''M 1,2 L 3,4 z''))) = js ''M 1,2 L 3,4 z''"
    by code_simp
  from generatePath_lowercase_z [OF 1 2 3, of "parsePath (js ''M 1,2 L 3,4 z'')"] 4
  show ?thesis by simp
qed

section \<open>Parsing what generatePath writes\<close>

lemma trim_cons_space: "isWhiteSpace a \<Longrightarrow> trim (a # s) = trim s"
  by (simp add: trim_def)

lemma trim_append_space:
  assumes "\<forall>x\<in>set w. isWhiteSpace x"
  shows "trim (s @ w) = trim s"
proof -
  have "dropWhile isWhiteSpace (rev (dropWhile isWhiteSpace (s @ w))) =
        dropWhile isWhiteSpace (rev (dropWhile isWhiteSpace s))"
  proof (cases "\<forall>x\<in>set s. isWhiteSpace x")
    case True
    then have "dropWhile isWhiteSpace (s @ w) = []" "dropWhile isWhiteSpace s = []"
      using assms by auto
    then show ?thesis by (simp only:)
  next
    case False
    then have "dropWhile isWhiteSpace (s @ w) = dropWhile isWhiteSpace s @ w"
      by (auto simp: dropWhile_append1)
    moreover have "dropWhile isWhiteSpace (rev w @ r) = dropWhile isWhiteSpace r" for r
      by (rule dropWhile_append2) (use assms in auto)
    ultimately show ?thesis by simp
  qed
  then show ?thesis by (simp add: trim_def)
qed

lemma trim_id:
  assumes "s \<noteq> []" and "\<not> isWhiteSpace (hd s)" and "\<not> isWhiteSpace (last s)"
  shows "trim s = s"
proof -
  from assms have 1: "dropWhile isWhiteSpace s = s" by (cases s) auto
  from assms have "rev s \<noteq> []" and "\<not> isWhiteSpace (hd (rev s))"
    by (simp_all add: hd_rev)
  then have "dropWhile isWhiteSpace (rev s) = rev s" by (cases "rev s") auto
  with 1 show ?thesis by (simp add: trim_def)
qed

lemma regexExec_None: "regexExec x = None \<longleftrightarrow> (\<forall>c\<in>set x. \<not> isCommandLetter c)"
  by (induction x) (auto simp: Let_def)

lemma regexExec_Cons:
  "isCommandLetter a \<Longrightarrow>
     regexExec (a # cs) =
       Some (a,
         if takeWhile (\<lambda>x. \<not> isLetter x) (dropWhile isWhiteSpace cs) = [] then None
         else Some (takeWhile (\<lambda>x. \<not> isLetter x) (dropWhile isWhiteSpace cs)),
         dropWhile (\<lambda>x. \<not> isLetter x) (dropWhile isWhiteSpace cs))"
  by (simp add: Let_def)

lemma regexExec_trailing:
  assumes w: "\<forall>x\<in>set w. isWhiteSpace x"
  shows "regexExec (x @ w) =
     (case regexExec x of
        None \<Rightarrow> None
      | Some (c, g, rest) \<Rightarrow>
          if rest = [] then Some (c, map_option (\<lambda>s. s @ w) g, []) else Some (c, g, rest @ w))"
proof (induction x)
  case Nil
  have "\<forall>c\<in>set w. \<not> isCommandLetter c"
    using w isWhiteSpace_not_isLetter isCommandLetter_isLetter by blast
  then show ?case by (simp add: regexExec_None)
next
  case (Cons a cs)
  show ?case
  proof (cases "isCommandLetter a")
    case False
    with Cons show ?thesis by simp
  next
    case True
    let ?nl = "\<lambda>x. \<not> isLetter x"
    let ?A = "dropWhile isWhiteSpace cs"
    let ?AW = "dropWhile isWhiteSpace (cs @ w)"
    have wnl: "\<forall>x\<in>set w. \<not> isLetter x" using w isWhiteSpace_not_isLetter by blast
    have L: "regexExec ((a # cs) @ w) =
        Some (a, if takeWhile ?nl ?AW = [] then None else Some (takeWhile ?nl ?AW),
              dropWhile ?nl ?AW)"
      using regexExec_Cons [OF True, of "cs @ w"] by simp
    have R: "regexExec (a # cs) =
        Some (a, if takeWhile ?nl ?A = [] then None else Some (takeWhile ?nl ?A),
              dropWhile ?nl ?A)"
      by (rule regexExec_Cons [OF True])
    show ?thesis
    proof (cases "?A = []")
      case empty: True
      then have "\<forall>x\<in>set cs. isWhiteSpace x" by (simp add: dropWhile_eq_Nil_conv)
      then have "\<forall>x\<in>set (cs @ w). isWhiteSpace x" using w by auto
      then have aw: "?AW = []" by (simp only: dropWhile_eq_Nil_conv)
      show ?thesis unfolding L R aw empty by simp
    next
      case False
      then have "\<exists>x\<in>set cs. \<not> isWhiteSpace x" by (simp add: dropWhile_eq_Nil_conv)
      then have aw: "?AW = ?A @ w" by (auto simp: dropWhile_append1)
      show ?thesis
      proof (cases "dropWhile ?nl ?A = []")
        case rest_empty: True
        then have all: "\<forall>x\<in>set ?A. \<not> isLetter x" by (simp add: dropWhile_eq_Nil_conv)
        then have tA: "takeWhile ?nl ?A = ?A" by (simp add: takeWhile_eq_all_conv)
        from all wnl have allw: "\<forall>x\<in>set (?A @ w). \<not> isLetter x" by auto
        then have t: "takeWhile ?nl (?A @ w) = ?A @ w"
          by (simp only: takeWhile_eq_all_conv) 
        from allw have d: "dropWhile ?nl (?A @ w) = []"
          by (simp only: dropWhile_eq_Nil_conv) 
        show ?thesis unfolding L R aw t d rest_empty tA using False by simp
      next
        case nonempty: False
        then obtain l where l: "l \<in> set ?A" "\<not> ?nl l"
          by (auto simp: dropWhile_eq_Nil_conv)
        then have t: "takeWhile ?nl (?A @ w) = takeWhile ?nl ?A"
          by (rule takeWhile_append1)
        from l have d: "dropWhile ?nl (?A @ w) = dropWhile ?nl ?A @ w"
          by (rule dropWhile_append1)
        show ?thesis unfolding L R aw t d using nonempty by auto
      qed
    qed
  qed
qed

lemma parseCommand_trailing:
  assumes "\<forall>x\<in>set w. isWhiteSpace x"
  shows "parseCommand c (map_option (\<lambda>s. s @ w) g) = parseCommand c g"
proof -
  have "trim (case map_option (\<lambda>s. s @ w) g of None \<Rightarrow> [] | Some s \<Rightarrow> s) =
        trim (case g of None \<Rightarrow> [] | Some s \<Rightarrow> s)"
    by (cases g) (simp_all add: trim_append_space [OF assms])
  then show ?thesis
    unfolding parseCommand_def by (simp only:)
qed

lemma parseLoop_trailing:
  assumes w: "\<forall>x\<in>set w. isWhiteSpace x"
  shows "parseLoop (x @ w) acc = parseLoop x acc"
proof (induction "length x" arbitrary: x acc rule: less_induct)
  case less
  show ?case
  proof (cases "regexExec x")
    case None
    then have "regexExec (x @ w) = None"
      using regexExec_trailing [OF w, of x] by simp
    with None show ?thesis
      by (simp add: parseLoop.simps [of "x @ w"] parseLoop.simps [of x])
  next
    case (Some m)
    obtain c g rest where m: "m = (c, g, rest)" by (cases m)
    with Some have shorter: "length rest < length x"
      using regexExec_shorter by blast
    have px: "parseLoop x acc = parseLoop rest (acc @ [parseCommand c g])"
      using Some m by (simp add: parseLoop.simps [of x])
    show ?thesis
    proof (cases "rest = []")
      case True
      then have "regexExec (x @ w) = Some (c, map_option (\<lambda>s. s @ w) g, [])"
        using regexExec_trailing [OF w, of x] Some m by simp
      then have "parseLoop (x @ w) acc =
          parseLoop [] (acc @ [parseCommand c (map_option (\<lambda>s. s @ w) g)])"
        by (simp add: parseLoop.simps [of "x @ w"])
      with px True show ?thesis
        by (simp add: parseCommand_trailing [OF w])
    next
      case False
      then have "regexExec (x @ w) = Some (c, g, rest @ w)"
        using regexExec_trailing [OF w, of x] Some m by simp
      then have "parseLoop (x @ w) acc = parseLoop (rest @ w) (acc @ [parseCommand c g])"
        by (simp add: parseLoop.simps [of "x @ w"])
      with px less [OF shorter] show ?thesis by simp
    qed
  qed
qed

lemma parsePath_trim: "parsePath (trim x) = parsePath x"
proof -
  let ?y = "dropWhile isWhiteSpace x"
  let ?w = "rev (takeWhile isWhiteSpace (rev ?y))"
  have "rev (takeWhile isWhiteSpace (rev ?y) @ dropWhile isWhiteSpace (rev ?y)) = rev (rev ?y)"
    by (simp only: takeWhile_dropWhile_id)
  then have y: "?y = trim x @ ?w"
    by (simp only: rev_append rev_rev_ident trim_def)
  have w: "\<forall>c\<in>set ?w. isWhiteSpace c"
    by (auto dest: set_takeWhileD)
  have "parsePath (trim x) = parsePath (trim x @ ?w)"
    using parseLoop_trailing [OF w, of "trim x" "[]"] by (simp add: parsePath_def)
  also have "\<dots> = parsePath ?y" using y by simp
  also have "\<dots> = parsePath (takeWhile isWhiteSpace x @ ?y)"
  proof -
    have "\<forall>c\<in>set (takeWhile isWhiteSpace x). \<not> isCommandLetter c"
      using isWhiteSpace_not_isLetter isCommandLetter_isLetter
      by (auto dest: set_takeWhileD)
    then show ?thesis by (rule parsePath_skip [symmetric])
  qed
  finally show ?thesis by simp
qed

lemma split_single:
  assumes "\<forall>x\<in>set t. \<not> isSeparator x"
  shows "split t = [t]"
proof -
  from assms have "dropWhile (\<lambda>c. \<not> isSeparator c) t = []"
    and "takeWhile (\<lambda>c. \<not> isSeparator c) t = t"
    by (simp_all add: takeWhile_eq_all_conv)
  then show ?thesis by (simp only: split.simps [of t] Let_def) simp
qed

lemma split_cons:
  assumes t: "\<forall>x\<in>set t. \<not> isSeparator x" and s: "isSeparator s"
    and m: "others \<noteq> []" "\<not> isSeparator (hd others)"
  shows "split (t @ s # others) = t # split others"
proof -
  have d: "dropWhile (\<lambda>c. \<not> isSeparator c) (t @ s # others) = s # others"
    using t s by (simp add: dropWhile_append2)
  have k: "takeWhile (\<lambda>c. \<not> isSeparator c) (t @ s # others) = t"
    using t s by (simp add: takeWhile_append2)
  have r: "dropWhile isSeparator (s # others) = others"
    using s m by (cases others) auto
  show ?thesis
    by (simp only: split.simps [of "t @ s # others"] Let_def d k r) simp
qed

lemma joinTokens_inner:
  "ts \<noteq> [] \<Longrightarrow> joinTokens ts = joinInner ts @ [snd (last ts)]"
  by (induction ts rule: joinInner.induct) auto

lemma joinInner_nonempty:
  "ts \<noteq> [] \<Longrightarrow> \<forall>p\<in>set ts. plainText (fst p) \<Longrightarrow> joinInner ts \<noteq> []"
  by (induction ts rule: joinInner.induct) (auto simp: plainText_def)

lemma hd_joinInner:
  "ts \<noteq> [] \<Longrightarrow> \<forall>p\<in>set ts. plainText (fst p) \<Longrightarrow> hd (joinInner ts) = hd (fst (hd ts))"
  by (induction ts rule: joinInner.induct) (auto simp: plainText_def)

lemma last_joinInner:
  "ts \<noteq> [] \<Longrightarrow> \<forall>p\<in>set ts. plainText (fst p) \<Longrightarrow>
     last (joinInner ts) = last (fst (last ts))"
proof (induction ts rule: joinInner.induct)
  case 1
  then show ?case by simp
next
  case (2 t s)
  then show ?case by simp
next
  case (3 t s v va)
  then have "joinInner (v # va) \<noteq> []"
    using joinInner_nonempty [of "v # va"] by simp
  with 3 show ?case by simp
qed

lemma plainText_hd: "plainText t \<Longrightarrow> \<not> isSeparator (hd t) \<and> \<not> isSeparator (last t)"
  by (cases t) (auto simp: plainText_def list_all_iff)

lemma isWhiteSpace_isSeparator: "isWhiteSpace c \<Longrightarrow> isSeparator c"
  by (simp add: isSeparator_def)

lemma split_joinInner:
  "ts \<noteq> [] \<Longrightarrow> \<forall>p\<in>set ts. plainText (fst p) \<and> isSeparator (snd p) \<Longrightarrow>
     split (joinInner ts) = map fst ts"
proof (induction ts rule: joinInner.induct)
  case 1
  then show ?case by simp
next
  case (2 t s)
  then have "\<forall>x\<in>set t. \<not> isSeparator x" by (auto simp: plainText_def list_all_iff)
  then show ?case by (simp add: split_single)
next
  case (3 t s v va)
  from "3.prems" have t: "\<forall>x\<in>set t. \<not> isSeparator x" and s: "isSeparator s"
    by (auto simp: plainText_def list_all_iff)
  from "3.prems" have pl: "\<forall>p\<in>set (v # va). plainText (fst p)" by simp
  have ne: "joinInner (v # va) \<noteq> []" using joinInner_nonempty [OF _ pl] by simp
  have "hd (joinInner (v # va)) = hd (fst v)" using hd_joinInner [OF _ pl] by simp
  moreover have "plainText (fst v)" using pl by simp
  ultimately have hdns: "\<not> isSeparator (hd (joinInner (v # va)))"
    using plainText_hd by metis
  have "split (joinInner ((t, s) # v # va)) = t # split (joinInner (v # va))"
    using split_cons [OF t s ne hdns] by simp
  with "3.IH" "3.prems" show ?case by simp
qed

lemma split_trim_joinTokens:
  assumes ne: "ts \<noteq> []" and pl: "\<forall>p\<in>set ts. plainText (fst p) \<and> isSeparator (snd p)"
    and ws: "isWhiteSpace (snd (last ts))"
  shows "split (trim (joinTokens ts)) = map fst ts"
proof -
  from pl have pl': "\<forall>p\<in>set ts. plainText (fst p)" by simp
  have j: "joinTokens ts = joinInner ts @ [snd (last ts)]" using ne by (rule joinTokens_inner)
  have n: "joinInner ts \<noteq> []" using ne pl' by (rule joinInner_nonempty)
  have "plainText (fst (hd ts))" "plainText (fst (last ts))" using ne pl' by simp_all
  then have "\<not> isSeparator (hd (joinInner ts))" "\<not> isSeparator (last (joinInner ts))"
    using hd_joinInner [OF ne pl'] last_joinInner [OF ne pl'] plainText_hd by metis+
  then have "\<not> isWhiteSpace (hd (joinInner ts))" "\<not> isWhiteSpace (last (joinInner ts))"
    using isWhiteSpace_isSeparator by blast+
  with n have "trim (joinInner ts) = joinInner ts" by (rule trim_id)
  moreover have "trim (joinTokens ts) = trim (joinInner ts)"
    unfolding j using ws by (simp add: trim_append_space)
  ultimately show ?thesis using split_joinInner [OF ne pl] by simp
qed

lemma joinTokens_nonletters:
  "\<forall>p\<in>set ts. plainText (fst p) \<and> isSeparator (snd p) \<Longrightarrow>
     \<forall>x\<in>set (joinTokens ts). \<not> isLetter x"
proof (induction ts)
  case Nil
  then show ?case by simp
next
  case (Cons p ts)
  obtain t s where p: "p = (t, s)" by (cases p)
  from Cons.prems p have "\<forall>x\<in>set t. \<not> isLetter x" and "isSeparator s"
    by (auto simp: plainText_def list_all_iff)
  moreover have "isSeparator c \<Longrightarrow> \<not> isLetter c" for c
    using isWhiteSpace_not_isLetter by (auto simp: isSeparator_def isLetter_def ch_def)
  ultimately show ?case using Cons p by auto
qed

lemma dropWhile_space_joinTokens:
  assumes "ts \<noteq> []" and "\<forall>p\<in>set ts. plainText (fst p) \<and> isSeparator (snd p)"
  shows "dropWhile isWhiteSpace (joinTokens ts) = joinTokens ts \<and> joinTokens ts \<noteq> []"
proof -
  obtain t s rest where ts: "ts = (t, s) # rest" using assms(1) by (cases ts) auto
  with assms(2) have "plainText t" by simp
  then have "t \<noteq> []" "\<not> isWhiteSpace (hd t)"
    using plainText_hd isWhiteSpace_isSeparator by (auto simp: plainText_def)
  then show ?thesis unfolding ts by (cases t) auto
qed

text \<open>The array of coordinates read back from a command letter and its tokens.\<close>

lemma parsePath_tokens:
  assumes c: "isCommandLetter c"
    and ne: "ts \<noteq> []" and pl: "\<forall>p\<in>set ts. plainText (fst p) \<and> isSeparator (snd p)"
    and ws: "isWhiteSpace (snd (last ts))" and sp: "isWhiteSpace sp"
    and rest: "rest = [] \<or> isLetter (hd rest)"
  shows "parsePath (c # sp # joinTokens ts @ rest) =
           parseCommand c (Some (joinTokens ts)) # parsePath rest \<and>
         map Number (split (trim (joinTokens ts))) = map (\<lambda>p. Number (fst p)) ts"
proof -
  have nl: "\<forall>x\<in>set (sp # joinTokens ts). \<not> isLetter x"
    using joinTokens_nonletters [OF pl] sp isWhiteSpace_not_isLetter by auto
  have d: "dropWhile isWhiteSpace (sp # joinTokens ts) = joinTokens ts"
    and n: "joinTokens ts \<noteq> []"
    using dropWhile_space_joinTokens [OF ne pl] sp by auto
  have "parsePath (c # (sp # joinTokens ts) @ rest) =
      parseCommand c (if dropWhile isWhiteSpace (sp # joinTokens ts) = [] then None
                      else Some (dropWhile isWhiteSpace (sp # joinTokens ts))) # parsePath rest"
    using c nl rest by (rule parsePath_command)
  then have 1: "parsePath (c # sp # joinTokens ts @ rest) =
           parseCommand c (Some (joinTokens ts)) # parsePath rest"
    unfolding d using n by simp
  have 2: "map Number (split (trim (joinTokens ts))) = map (\<lambda>p. Number (fst p)) ts"
    using split_trim_joinTokens [OF ne pl ws] by simp
  from 1 2 show ?thesis by blast
qed

lemma plainNumberE:
  assumes "plainNumber v"
  obtains n where "v = Num n" and "plainText (numberToString n)"
    and "Number (numberToString n) = n"
  using assms by (cases v) (auto simp: plainNumber_def)

lemma sep_comma: "isSeparator (44 :: jschar)"
  by (simp add: isSeparator_def ch_def)

lemma sep_space: "isSeparator (32 :: jschar)" "isWhiteSpace (32 :: jschar)"
  by (simp_all add: isSeparator_def isWhiteSpace_def)

lemma parse_segment_Z:
  assumes c: "c = ch CHR ''Z'' \<or> c = ch CHR ''z''"
    and rest: "rest = [] \<or> isLetter (hd rest)"
  shows "parsePath (segment [(''command'', Str [c])] @ rest) =
           [(''command'', Str [c])] # parsePath rest"
proof -
  have cl: "isCommandLetter c" using c by (auto simp: isCommandLetter_def)
  have seg: "segment [(''command'', Str [c])] = c # [32]"
    using c by (auto simp: segment_def layoutOf_def getProp_def jsToString_def js_def ch_def)
  have "parsePath (c # [32] @ rest) =
      parseCommand c (if dropWhile isWhiteSpace [32] = [] then None
                      else Some (dropWhile isWhiteSpace [32])) # parsePath rest"
    using cl _ rest by (rule parsePath_command) (simp add: isLetter_def)
  moreover have "parseCommand c None = [(''command'', Str [c])]"
    using c by (auto simp: parseCommand_def)
  ultimately show ?thesis unfolding seg by (simp add: sep_space)
qed

lemma parse_segment_xy:
  assumes c: "c = ch CHR ''M'' \<or> c = ch CHR ''m'' \<or> c = ch CHR ''L'' \<or> c = ch CHR ''l''"
    and p: "plainNumber vx" "plainNumber vy"
    and rest: "rest = [] \<or> isLetter (hd rest)"
  shows "parsePath (segment [(''command'', Str [c]), (''x'', vx), (''y'', vy)] @ rest) =
           [(''command'', Str [c]), (''x'', vx), (''y'', vy)] # parsePath rest"
proof -
  from p obtain nx ny where
    v: "vx = Num nx" "vy = Num ny" and
    pt: "plainText (numberToString nx)" "plainText (numberToString ny)" and
    rt: "Number (numberToString nx) = nx" "Number (numberToString ny) = ny"
    by (elim plainNumberE) blast
  let ?ts = "[(numberToString nx, 44), (numberToString ny, 32 :: jschar)]"
  have cl: "isCommandLetter c" using c by (auto simp: isCommandLetter_def)
  have seg: "segment [(''command'', Str [c]), (''x'', vx), (''y'', vy)] =
      c # 32 # joinTokens ?ts"
    using c v
    by (auto simp: segment_def layoutOf_def getProp_def jsToString_def js_def ch_def)
  have tok: "parsePath (c # 32 # joinTokens ?ts @ rest) =
           parseCommand c (Some (joinTokens ?ts)) # parsePath rest \<and>
         map Number (split (trim (joinTokens ?ts))) = map (\<lambda>p. Number (fst p)) ?ts"
    using cl _ _ _ _ rest by (rule parsePath_tokens) (simp_all add: pt sep_comma sep_space)
  then have coords: "map Number (split (trim (joinTokens ?ts))) = [nx, ny]"
    using rt by simp
  have "parseCommand c (Some (joinTokens ?ts)) =
      [(''command'', Str [c]), (''x'', vx), (''y'', vy)]"
    using c v unfolding parseCommand_def Let_def option.case coords
    by (auto simp: setProp_def coordAt_def ch_def)
  with tok show ?thesis unfolding seg by simp
qed

lemma parse_segment_cubic:
  assumes c: "c = ch CHR ''C'' \<or> c = ch CHR ''c''"
    and p: "plainNumber v1" "plainNumber v2" "plainNumber v3" "plainNumber v4"
      "plainNumber v5" "plainNumber v6"
    and rest: "rest = [] \<or> isLetter (hd rest)"
  shows "parsePath (segment [(''command'', Str [c]), (''x1'', v1), (''y1'', v2), (''x2'', v3),
             (''y2'', v4), (''x'', v5), (''y'', v6)] @ rest) =
           [(''command'', Str [c]), (''x1'', v1), (''y1'', v2), (''x2'', v3),
             (''y2'', v4), (''x'', v5), (''y'', v6)] # parsePath rest"
proof -
  from p obtain n1 n2 n3 n4 n5 n6 where
    v: "v1 = Num n1" "v2 = Num n2" "v3 = Num n3" "v4 = Num n4" "v5 = Num n5" "v6 = Num n6" and
    pt: "plainText (numberToString n1)" "plainText (numberToString n2)"
      "plainText (numberToString n3)" "plainText (numberToString n4)"
      "plainText (numberToString n5)" "plainText (numberToString n6)" and
    rt: "Number (numberToString n1) = n1" "Number (numberToString n2) = n2"
      "Number (numberToString n3) = n3" "Number (numberToString n4) = n4"
      "Number (numberToString n5) = n5" "Number (numberToString n6) = n6"
    by (elim plainNumberE) blast
  let ?obj = "[(''command'', Str [c]), (''x1'', v1), (''y1'', v2), (''x2'', v3),
             (''y2'', v4), (''x'', v5), (''y'', v6)]"
  let ?ts = "[(numberToString n1, 44), (numberToString n2, 32), (numberToString n3, 44),
              (numberToString n4, 32), (numberToString n5, 44), (numberToString n6, 32 :: jschar)]"
  have cl: "isCommandLetter c" using c by (auto simp: isCommandLetter_def)
  have seg: "segment ?obj = c # 32 # joinTokens ?ts"
    using c v
    by (auto simp: segment_def layoutOf_def getProp_def jsToString_def js_def ch_def)
  have tok: "parsePath (c # 32 # joinTokens ?ts @ rest) =
           parseCommand c (Some (joinTokens ?ts)) # parsePath rest \<and>
         map Number (split (trim (joinTokens ?ts))) = map (\<lambda>p. Number (fst p)) ?ts"
    using cl _ _ _ _ rest by (rule parsePath_tokens) (simp_all add: pt sep_comma sep_space)
  then have coords: "map Number (split (trim (joinTokens ?ts))) = [n1, n2, n3, n4, n5, n6]"
    using rt by simp
  have "parseCommand c (Some (joinTokens ?ts)) = ?obj"
    using c v unfolding parseCommand_def Let_def option.case coords
    by (auto simp: setProp_def coordAt_def ch_def)
  with tok show ?thesis unfolding seg by simp
qed

lemma parse_segment_arc:
  assumes c: "c = ch CHR ''A'' \<or> c = ch CHR ''a''"
    and p: "plainNumber v1" "plainNumber v2" "plainNumber v3" "plainNumber v4"
      "plainNumber v5" "plainNumber v6" "plainNumber v7"
    and rest: "rest = [] \<or> isLetter (hd rest)"
  shows "parsePath (segment [(''command'', Str [c]), (''rx'', v1), (''ry'', v2),
             (''xAxisRotation'', v3), (''largeArcFlag'', v4), (''sweepFlag'', v5),
             (''x'', v6), (''y'', v7)] @ rest) =
           [(''command'', Str [c]), (''rx'', v1), (''ry'', v2),
             (''xAxisRotation'', v3), (''largeArcFlag'', v4), (''sweepFlag'', v5),
             (''x'', v6), (''y'', v7)] # parsePath rest"
proof -
  from p obtain n1 n2 n3 n4 n5 n6 n7 where
    v: "v1 = Num n1" "v2 = Num n2" "v3 = Num n3" "v4 = Num n4" "v5 = Num n5" "v6 = Num n6"
      "v7 = Num n7" and
    pt: "plainText (numberToString n1)" "plainText (numberToString n2)"
      "plainText (numberToString n3)" "plainText (numberToString n4)"
      "plainText (numberToString n5)" "plainText (numberToString n6)"
      "plainText (numberToString n7)" and
    rt: "Number (numberToString n1) = n1" "Number (numberToString n2) = n2"
      "Number (numberToString n3) = n3" "Number (numberToString n4) = n4"
      "Number (numberToString n5) = n5" "Number (numberToString n6) = n6"
      "Number (numberToString n7) = n7"
    by (elim plainNumberE) blast
  let ?obj = "[(''command'', Str [c]), (''rx'', v1), (''ry'', v2),
             (''xAxisRotation'', v3), (''largeArcFlag'', v4), (''sweepFlag'', v5),
             (''x'', v6), (''y'', v7)]"
  let ?ts = "[(numberToString n1, 44), (numberToString n2, 32), (numberToString n3, 32),
              (numberToString n4, 44), (numberToString n5, 32), (numberToString n6, 44),
              (numberToString n7, 32 :: jschar)]"
  have cl: "isCommandLetter c" using c by (auto simp: isCommandLetter_def)
  have seg: "segment ?obj = c # 32 # joinTokens ?ts"
    using c v
    by (auto simp: segment_def layoutOf_def getProp_def jsToString_def js_def ch_def)
  have tok: "parsePath (c # 32 # joinTokens ?ts @ rest) =
           parseCommand c (Some (joinTokens ?ts)) # parsePath rest \<and>
         map Number (split (trim (joinTokens ?ts))) = map (\<lambda>p. Number (fst p)) ?ts"
    using cl _ _ _ _ rest by (rule parsePath_tokens) (simp_all add: pt sep_comma sep_space)
  then have coords: "map Number (split (trim (joinTokens ?ts))) = [n1, n2, n3, n4, n5, n6, n7]"
    using rt by simp
  have "parseCommand c (Some (joinTokens ?ts)) = ?obj"
    using c v unfolding parseCommand_def Let_def option.case coords
    by (auto simp: setProp_def coordAt_def ch_def)
  with tok show ?thesis unfolding seg by simp
qed

lemma parse_segment:
  assumes wf: "wellFormedCommand obj" and rest: "rest = [] \<or> isLetter (hd rest)"
  shows "parsePath (segment obj @ rest) = obj # parsePath rest"
proof -
  from wf obtain c props where obj: "obj = (''command'', Str [c]) # props"
    and cl: "isCommandLetter c" and keys: "map fst props = fieldsOf c"
    and pl: "list_all (\<lambda>p. plainNumber (snd p)) props"
    by (cases obj rule: wellFormedCommand.cases) auto
  consider (xy) "c = ch CHR ''M'' \<or> c = ch CHR ''m'' \<or> c = ch CHR ''L'' \<or> c = ch CHR ''l''"
    | (cubic) "c = ch CHR ''C'' \<or> c = ch CHR ''c''"
    | (arc) "c = ch CHR ''A'' \<or> c = ch CHR ''a''"
    | (close) "c = ch CHR ''Z'' \<or> c = ch CHR ''z''"
    using cl by (auto simp: isCommandLetter_def)
  then show ?thesis
  proof cases
    case xy
    then have "map fst props = [''x'', ''y'']" using keys by (auto simp: fieldsOf_def)
    then obtain vx vy where "props = [(''x'', vx), (''y'', vy)]"
      by (auto simp: map_eq_Cons_conv)
    with pl obj xy rest show ?thesis by (simp add: parse_segment_xy)
  next
    case cubic
    then have "map fst props = [''x1'', ''y1'', ''x2'', ''y2'', ''x'', ''y'']"
      using keys by (auto simp: fieldsOf_def ch_def)
    then obtain v1 v2 v3 v4 v5 v6 where "props = [(''x1'', v1), (''y1'', v2), (''x2'', v3),
             (''y2'', v4), (''x'', v5), (''y'', v6)]"
      by (auto simp: map_eq_Cons_conv)
    with pl obj cubic rest show ?thesis by (simp add: parse_segment_cubic)
  next
    case arc
    then have "map fst props =
        [''rx'', ''ry'', ''xAxisRotation'', ''largeArcFlag'', ''sweepFlag'', ''x'', ''y'']"
      using keys by (auto simp: fieldsOf_def ch_def)
    then obtain v1 v2 v3 v4 v5 v6 v7 where "props = [(''rx'', v1), (''ry'', v2),
             (''xAxisRotation'', v3), (''largeArcFlag'', v4), (''sweepFlag'', v5),
             (''x'', v6), (''y'', v7)]"
      by (auto simp: map_eq_Cons_conv)
    with pl obj arc rest show ?thesis by (simp add: parse_segment_arc)
  next
    case close
    then have "props = []" using keys by (auto simp: fieldsOf_def ch_def)
    with obj close rest show ?thesis by (simp add: parse_segment_Z)
  qed
qed

lemma segment_starts_with_letter:
  "wellFormedCommand obj \<Longrightarrow> segment obj \<noteq> [] \<and> isLetter (hd (segment obj))"
  by (cases obj rule: wellFormedCommand.cases)
    (auto simp: segment_def jsToString_def getProp_def isCommandLetter_isLetter)

lemma parsePath_segments:
  assumes "list_all wellFormedCommand cmds" and "rest = [] \<or> isLetter (hd rest)"
  shows "parsePath (concat (map segment cmds) @ rest) = cmds @ parsePath rest"
  using assms
proof (induction cmds)
  case Nil
  then show ?case by simp
next
  case (Cons obj cmds)
  then have wf: "wellFormedCommand obj" and wfs: "list_all wellFormedCommand cmds" by simp_all
  have start: "concat (map segment cmds) @ rest = [] \<or>
      isLetter (hd (concat (map segment cmds) @ rest))"
  proof (cases cmds)
    case Nil
    with Cons.prems show ?thesis by simp
  next
    case (Cons o2 others)
    with wfs have "segment o2 \<noteq> [] \<and> isLetter (hd (segment o2))"
      using segment_starts_with_letter by simp
    with Cons show ?thesis by simp
  qed
  have "parsePath (segment obj @ (concat (map segment cmds) @ rest)) =
      obj # parsePath (concat (map segment cmds) @ rest)"
    using wf start by (rule parse_segment)
  with Cons.IH [OF wfs Cons.prems(2)] show ?case by simp
qed

text \<open>
  Parsing what \<open>generatePath\<close> writes for well-formed command objects gives the
  objects back, followed by one more Z command when a Z was appended.
\<close>

lemma parsePath_generatePath:
  assumes wf: "list_all wellFormedCommand cmds"
    and el: "getElementById doc pathId = Some el"
  shows "\<exists>s. generatePath doc cmds pathId = Inr s \<and>
           parsePath s =
             cmds @ (if closesWithZ (attr_d el) then [[(''command'', Str (js ''Z''))]] else [])"
proof -
  let ?sfx = "if closesWithZ (attr_d el) then js ''Z'' else []"
  have g: "generatePath doc cmds pathId = Inr (trim (concat (map segment cmds) @ ?sfx))"
    using el by (auto simp: generatePath_def Let_def foldl_emitCommand)
  have sfx: "?sfx = [] \<or> isLetter (hd ?sfx)"
    by (simp add: js_def ch_def isLetter_def)
  have "parsePath (js ''Z'') = [[(''command'', Str (js ''Z''))]]" and "parsePath [] = []"
    by code_simp+
  then have "parsePath ?sfx =
      (if closesWithZ (attr_d el) then [[(''command'', Str (js ''Z''))]] else [])"
    by simp
  then have "parsePath (trim (concat (map segment cmds) @ ?sfx)) =
      cmds @ (if closesWithZ (attr_d el) then [[(''command'', Str (js ''Z''))]] else [])"
    using parsePath_segments [OF wf sfx] by (simp only: parsePath_trim)
  with g show ?thesis by blast
qed

text \<open>
  The round trip from a path string: when every command of the parsed path is
  well formed and the element's \<open>d\<close> attribute is the string itself, parsing what
  \<open>generatePath\<close> writes gives the parsed path again, followed by one more Z
  command exactly when the string, trimmed, ends with \<open>Z\<close>.
\<close>

lemma parsePath_roundTrip:
  assumes "list_all wellFormedCommand (parsePath d)"
    and "getElementById doc pathId = Some el" and "attr_d el = Some d"
  shows "\<exists>s. generatePath doc (parsePath d) pathId = Inr s \<and>
           parsePath s =
             parsePath d @
             (if endsWith (trim d) (js ''Z'') then [[(''command'', Str (js ''Z''))]] else [])"
  using parsePath_generatePath [OF assms(1,2)] assms(3) by (simp add: closesWithZ_iff)

text \<open>
  Claim C1 at the path of the specification's own example. With the element's \<open>d\<close>
  attribute equal to the input, \<open>parsePath\<close> followed by \<open>generatePath\<close> gives a path
  with the commands M, L, Z, Z where the input has M, L, Z: the Z of the parsed data
  is written by the loop and a second one is appended for the attribute's final Z.
\<close>

theorem generatePath_repeats_closing_Z:
  "generatePath
     [\<lparr>elem_id = js ''p'', attr_d = Some (js ''M 10,10 L 20,20 Z''), inDocument = True\<rparr>]
     (parsePath (js ''M 10,10 L 20,20 Z'')) (js ''p'') = Inr (js ''M 10,10 L 20,20 Z Z'') \<and>
   map (\<lambda>obj. getProp obj ''command'') (parsePath (js ''M 10,10 L 20,20 Z Z'')) =
     [Str (js ''M''), Str (js ''L''), Str (js ''Z''), Str (js ''Z'')] \<and>
   map (\<lambda>obj. getProp obj ''command'') (parsePath (js ''M 10,10 L 20,20 Z'')) =
     [Str (js ''M''), Str (js ''L''), Str (js ''Z'')]"
  by code_simp

section \<open>Which tokens are numbers\<close>

lemma norm10_Fin: "\<exists>m' e'. norm10 m e = Fin m' e'"
proof (induction m e rule: norm10.induct)
  case (1 m e)
  then show ?case by (simp add: norm10.simps [of m e])
qed

lemma norm10_not_NaN: "norm10 m e \<noteq> NaN"
  using norm10_Fin [of m e] by auto

lemma dot_not_digit: "\<not> isDigit (ch CHR ''.'')"
  by (simp add: isDigit_def ch_def)

lemma letter_e: "isLetter (ch CHR ''e'')" "isLetter (ch CHR ''E'')"
  by (simp_all add: isLetter_def ch_def)

lemma unsignedDecimal_token:
  assumes nl: "\<forall>c\<in>set u. \<not> isLetter c"
  shows "unsignedDecimal u \<noteq> NaN \<longleftrightarrow> isDecimalToken u"
proof -
  let ?ip = "takeWhile isDigit u"
  let ?r1 = "dropWhile isDigit u"
  have u: "u = ?ip @ ?r1" by simp
  have ipd: "list_all isDigit ?ip" by (simp add: list_all_iff) (meson set_takeWhileD)
  have notinf: "u \<noteq> js ''Infinity''"
    using nl by (auto simp: js_def ch_def isLetter_def)
  have uniq: "?ip = ip \<and> ?r1 = r" if "u = ip @ r" "list_all isDigit ip" "r = [] \<or> \<not> isDigit (hd r)"
    for ip r
  proof -
    from that have "takeWhile isDigit (ip @ r) = ip"
      by (cases r) (auto simp: list_all_iff takeWhile_append2 takeWhile_eq_all_conv)
    moreover from that have "dropWhile isDigit (ip @ r) = r"
      by (cases r) (auto simp: list_all_iff dropWhile_append2)
    ultimately show ?thesis using that(1) by simp
  qed
  show ?thesis
  proof (cases "?r1 = []")
    case True
    then have "unsignedDecimal u = (if ?ip = [] then NaN else norm10 (int (digitsValue 10 ?ip)) 0)"
      using notinf by (simp add: unsignedDecimal_def Let_def exponentPart_def
          del: dropWhile_eq_Nil_conv)
    then have l: "unsignedDecimal u \<noteq> NaN \<longleftrightarrow> ?ip \<noteq> []"
      by (simp add: norm10_not_NaN)
    from True u have uip: "u = ?ip" by (metis append_Nil2)
    have "isDecimalToken u \<longleftrightarrow> ?ip \<noteq> []"
    proof
      assume "isDecimalToken u"
      then obtain ip fp where d: "list_all isDigit ip" "list_all isDigit fp"
        and c: "(ip \<noteq> [] \<and> u = ip) \<or> ((ip \<noteq> [] \<or> fp \<noteq> []) \<and> u = ip @ ch CHR ''.'' # fp)"
        by (auto simp: isDecimalToken_def)
      from c show "?ip \<noteq> []"
      proof
        assume "ip \<noteq> [] \<and> u = ip"
        with uip show ?thesis by simp
      next
        assume a: "(ip \<noteq> [] \<or> fp \<noteq> []) \<and> u = ip @ ch CHR ''.'' # fp"
        then have "?r1 = ch CHR ''.'' # fp"
          using uniq [of ip "ch CHR ''.'' # fp"] d dot_not_digit by simp
        with True show ?thesis by simp
      qed
    next
      assume "?ip \<noteq> []"
      moreover have "list_all isDigit ([]::jsstring)" by simp
      ultimately show "isDecimalToken u"
        unfolding isDecimalToken_def using uip ipd by blast
    qed
    with l show ?thesis by simp
  next
    case False
    show ?thesis
    proof (cases "hd ?r1 = ch CHR ''.''")
      case dot: True
      let ?fp = "takeWhile isDigit (tl ?r1)"
      let ?r2 = "dropWhile isDigit (tl ?r1)"
      have fpd: "list_all isDigit ?fp" by (simp add: list_all_iff) (meson set_takeWhileD)
      have r1: "?r1 = ch CHR ''.'' # tl ?r1" using False dot by (cases ?r1) auto
      have ud: "unsignedDecimal u =
          (if ?ip = [] \<and> ?fp = [] then NaN
           else case exponentPart ?r2 of None \<Rightarrow> NaN
                | Some ex \<Rightarrow> norm10 (int (digitsValue 10 (?ip @ ?fp))) (ex - int (length ?fp)))"
        using notinf False dot by (simp add: unsignedDecimal_def Let_def)
      have sub: "set ?r2 \<subseteq> set u"
        by (metis (no_types, lifting) False dual_order.trans list.set_sel(2) set_dropWhileD subsetI)
      have ex: "exponentPart ?r2 = (if ?r2 = [] then Some 0 else None)"
      proof (cases ?r2)
        case Nil
        then show ?thesis by (simp add: exponentPart_def del: dropWhile_eq_Nil_conv)
      next
        case (Cons a list)
        then have "a \<in> set u" using sub by (metis list.set_intros(1) subsetD)
        then have "\<not> isLetter a" using nl by simp
        then have "a \<noteq> ch CHR ''e'' \<and> a \<noteq> ch CHR ''E''" using letter_e by auto
        with Cons show ?thesis by (simp add: exponentPart_def)
      qed
      have l: "unsignedDecimal u \<noteq> NaN \<longleftrightarrow> (?ip \<noteq> [] \<or> ?fp \<noteq> []) \<and> ?r2 = []"
        unfolding ud ex by (auto simp: norm10_not_NaN)
      have "isDecimalToken u \<longleftrightarrow> (?ip \<noteq> [] \<or> ?fp \<noteq> []) \<and> ?r2 = []"
      proof
        assume "isDecimalToken u"
        then obtain ip fp where d: "list_all isDigit ip" "list_all isDigit fp"
          and c: "(ip \<noteq> [] \<and> u = ip) \<or> ((ip \<noteq> [] \<or> fp \<noteq> []) \<and> u = ip @ ch CHR ''.'' # fp)"
          by (auto simp: isDecimalToken_def)
        from c show "(?ip \<noteq> [] \<or> ?fp \<noteq> []) \<and> ?r2 = []"
        proof
          assume "ip \<noteq> [] \<and> u = ip"
          then have "?r1 = []" using uniq [of ip "[]"] d by simp
          with False show ?thesis by simp
        next
          assume a: "(ip \<noteq> [] \<or> fp \<noteq> []) \<and> u = ip @ ch CHR ''.'' # fp"
          then have eq: "?ip = ip" "?r1 = ch CHR ''.'' # fp"
            using uniq [of ip "ch CHR ''.'' # fp"] d dot_not_digit by simp_all
          then have "tl ?r1 = fp" by simp
          then have fr: "?fp = fp" "?r2 = []"
            using d(2) by (simp_all add: list_all_iff takeWhile_eq_all_conv)
          from a have "ip \<noteq> [] \<or> fp \<noteq> []" by simp
          then have "?ip \<noteq> [] \<or> ?fp \<noteq> []" unfolding fr(1) eq(1) .
          from this fr(2) show ?thesis by (rule conjI)
        qed
      next
        assume a: "(?ip \<noteq> [] \<or> ?fp \<noteq> []) \<and> ?r2 = []"
        then have "tl ?r1 = ?fp" by (metis append_Nil2 takeWhile_dropWhile_id)
        then have "u = ?ip @ ch CHR ''.'' # ?fp" using u r1 by metis
        with a ipd fpd show "isDecimalToken u"
          unfolding isDecimalToken_def by blast
      qed
      with l show ?thesis by simp
    next
      case nodot: False
      have ud: "unsignedDecimal u =
          (if ?ip = [] then NaN
           else case exponentPart ?r1 of None \<Rightarrow> NaN
                | Some ex \<Rightarrow> norm10 (int (digitsValue 10 ?ip)) ex)"
        using notinf False nodot
        by (simp add: unsignedDecimal_def Let_def cong: option.case_cong)
      obtain a list where r1: "?r1 = a # list" using False by (cases ?r1) auto
      then have "a \<in> set u" by (metis list.set_intros(1) set_dropWhileD)
      then have "\<not> isLetter a" using nl by simp
      then have "a \<noteq> ch CHR ''e'' \<and> a \<noteq> ch CHR ''E''" using letter_e by auto
      with r1 have "exponentPart ?r1 = None" by (simp add: exponentPart_def)
      then have l: "unsignedDecimal u = NaN" unfolding ud by simp
      have "\<not> isDecimalToken u"
      proof
        assume "isDecimalToken u"
        then obtain ip fp where d: "list_all isDigit ip" "list_all isDigit fp"
          and c: "(ip \<noteq> [] \<and> u = ip) \<or> ((ip \<noteq> [] \<or> fp \<noteq> []) \<and> u = ip @ ch CHR ''.'' # fp)"
          by (auto simp: isDecimalToken_def)
        from c show False
        proof
          assume "ip \<noteq> [] \<and> u = ip"
          then have "?r1 = []" using uniq [of ip "[]"] d by simp
          with False show ?thesis by simp
        next
          assume "(ip \<noteq> [] \<or> fp \<noteq> []) \<and> u = ip @ ch CHR ''.'' # fp"
          then have "?r1 = ch CHR ''.'' # fp"
            using uniq [of ip "ch CHR ''.'' # fp"] d dot_not_digit by simp
          with nodot show ?thesis by simp
        qed
      qed
      with l show ?thesis by simp
    qed
  qed
qed

lemma negate_NaN: "negate n = NaN \<longleftrightarrow> n = NaN"
  by (cases n) (simp_all add: negate_def)

lemma take2_letter:
  assumes "take 2 t = [a, b]"
  shows "b \<in> set t"
proof -
  have "b \<in> set (take 2 t)" using assms by simp
  then show ?thesis by (rule in_set_takeD)
qed

text \<open>
  Which tokens of an argument run are not numbers: a token without letters and white
  space reads as \<open>NaN\<close> exactly when it is not empty and, after an optional sign, is
  not a run of digits with at most one decimal point and at least one digit.
\<close>

lemma Number_token:
  assumes "\<forall>c\<in>set t. \<not> isLetter c \<and> \<not> isWhiteSpace c"
  shows "Number t = NaN \<longleftrightarrow> t \<noteq> [] \<and> \<not> isDecimalToken (withoutSign t)"
proof (cases "t = []")
  case True
  then show ?thesis by (simp add: Number_def trim_def)
next
  case False
  then have "\<not> isWhiteSpace (hd t)" "\<not> isWhiteSpace (last t)" using assms by simp_all
  with False have tr: "trim t = t" by (rule trim_id)
  have nl: "\<forall>c\<in>set t. \<not> isLetter c" using assms by simp
  have letters: "isLetter (ch CHR ''x'')" "isLetter (ch CHR ''X'')" "isLetter (ch CHR ''o'')"
    "isLetter (ch CHR ''O'')" "isLetter (ch CHR ''b'')" "isLetter (ch CHR ''B'')"
    by (simp_all add: isLetter_def ch_def)
  have pre: "take 2 t \<noteq> js ''0x''" "take 2 t \<noteq> js ''0X''" "take 2 t \<noteq> js ''0o''"
    "take 2 t \<noteq> js ''0O''" "take 2 t \<noteq> js ''0b''" "take 2 t \<noteq> js ''0B''"
    using nl letters take2_letter [of t] unfolding js_def by auto
  have tl_nl: "\<forall>c\<in>set (tl t). \<not> isLetter c"
    using nl False by (metis list.set_sel(2))
  have N: "Number t =
      (if hd t = ch CHR ''+'' then unsignedDecimal (tl t)
       else if hd t = ch CHR ''-'' then negate (unsignedDecimal (tl t))
       else unsignedDecimal t)"
    using False pre by (simp add: Number_def tr Let_def)
  show ?thesis
  proof (cases "hd t = ch CHR ''+'' \<or> hd t = ch CHR ''-''")
    case True
    then have u: "withoutSign t = tl t" using False by (simp add: withoutSign_def)
    from True have "Number t = NaN \<longleftrightarrow> unsignedDecimal (tl t) = NaN"
      unfolding N by (auto simp: negate_NaN)
    with unsignedDecimal_token [OF tl_nl] u False show ?thesis by auto
  next
    case noSign: False
    then have u: "withoutSign t = t" by (simp add: withoutSign_def)
    from noSign have "Number t = unsignedDecimal t" unfolding N by simp
    with unsignedDecimal_token [OF nl] u False show ?thesis by auto
  qed
qed

lemma split_unfold:
  "split s =
     (if dropWhile (\<lambda>c. \<not> isSeparator c) s = [] then [takeWhile (\<lambda>c. \<not> isSeparator c) s]
      else takeWhile (\<lambda>c. \<not> isSeparator c) s #
           split (dropWhile isSeparator (dropWhile (\<lambda>c. \<not> isSeparator c) s)))"
  by (subst split.simps) (simp only: Let_def)

lemma split_tokens:
  "t \<in> set (split s) \<Longrightarrow> set t \<subseteq> set s \<and> (\<forall>c\<in>set t. \<not> isSeparator c)"
proof (induction "length s" arbitrary: s rule: less_induct)
  case less
  let ?tok = "takeWhile (\<lambda>c. \<not> isSeparator c) s"
  let ?rest = "dropWhile (\<lambda>c. \<not> isSeparator c) s"
  let ?next = "dropWhile isSeparator ?rest"
  have tok: "set ?tok \<subseteq> set s \<and> (\<forall>c\<in>set ?tok. \<not> isSeparator c)"
    by (auto dest: set_takeWhileD)
  show ?case
  proof (cases "t = ?tok")
    case True
    with tok show ?thesis by simp
  next
    case other: False
    have ne: "?rest \<noteq> []"
    proof
      assume "?rest = []"
      then have "split s = [?tok]" by (subst split_unfold) (simp only: refl if_True)
      with less.prems other show False by simp
    qed
    then have "split s = ?tok # split ?next" by (subst split_unfold) (simp only: if_False)
    with less.prems other have mem: "t \<in> set (split ?next)" by simp
    have "isSeparator (hd ?rest)"
      using ne hd_dropWhile [of "\<lambda>c. \<not> isSeparator c" s] by simp
    with ne have "length ?next < length ?rest"
      by (cases ?rest) (auto simp: length_dropWhile_le le_imp_less_Suc)
    moreover have "length ?rest \<le> length s" by (rule length_dropWhile_le)
    ultimately have "length ?next < length s" by simp
    from less.hyps [OF this mem]
    have "set t \<subseteq> set ?next" and sep: "\<forall>c\<in>set t. \<not> isSeparator c" by simp_all
    moreover have "set ?next \<subseteq> set ?rest" by (meson set_dropWhileD subsetI)
    moreover have "set ?rest \<subseteq> set s" by (meson set_dropWhileD subsetI)
    ultimately have "set t \<subseteq> set s" by (meson subset_trans)
    with sep show ?thesis by simp
  qed
qed

lemma set_trim: "set (trim s) \<subseteq> set s"
  unfolding trim_def by (auto dest!: set_dropWhileD)

lemma token_NaN:
  assumes args: "\<forall>x\<in>set args. \<not> isLetter x" and k: "k < length (split (trim args))"
  shows "Number (split (trim args) ! k) = NaN \<longleftrightarrow>
           split (trim args) ! k \<noteq> [] \<and>
           \<not> isDecimalToken (withoutSign (split (trim args) ! k))"
proof -
  let ?t = "split (trim args) ! k"
  from k have "?t \<in> set (split (trim args))" by simp
  then have "set ?t \<subseteq> set (trim args)" and ns: "\<forall>c\<in>set ?t. \<not> isSeparator c"
    using split_tokens by blast+
  then have "set ?t \<subseteq> set args" using set_trim by blast
  with args ns have "\<forall>c\<in>set ?t. \<not> isLetter c \<and> \<not> isWhiteSpace c"
    by (auto simp: isSeparator_def)
  then show ?thesis by (rule Number_token)
qed

text \<open>
  Claim C3, as the code has it. \<open>parsePath\<close> raises no error on any input (it is a
  total function). For a command letter followed by an argument run, field number
  \<open>k\<close> of the letter's schema is \<open>Number\<close> of token \<open>k\<close> of the run when there is
  such a token, and it is \<open>undefined\<close>, not \<open>NaN\<close>, when the run has fewer tokens. A
  token reads as \<open>NaN\<close> exactly when it is not empty and not numeric; the empty token,
  which is all that a missing or blank run holds, reads as 0.
\<close>

theorem parsePath_argument_fields:
  assumes "isCommandLetter c" and "\<forall>x\<in>set args. \<not> isLetter x"
    and "rest = [] \<or> isLetter (hd rest)"
  shows "\<exists>obj. parsePath (pre @ c # args @ rest) = parsePath pre @ obj # parsePath rest \<and>
           getProp obj ''command'' = Str [c] \<and>
           (\<forall>k<length (fieldsOf c). getProp obj (fieldsOf c ! k) =
              (if k < length (split (trim args))
               then Num (Number (split (trim args) ! k)) else Undefined)) \<and>
           (\<forall>k<length (split (trim args)).
              (Number (split (trim args) ! k) = NaN \<longleftrightarrow>
                 split (trim args) ! k \<noteq> [] \<and>
                 \<not> isDecimalToken (withoutSign (split (trim args) ! k))) \<and>
              (split (trim args) ! k = [] \<longrightarrow> Number (split (trim args) ! k) = Fin 0 0))"
proof -
  let ?g = "if dropWhile isWhiteSpace args = [] then None
            else Some (dropWhile isWhiteSpace args)"
  have tr: "trim (case ?g of None \<Rightarrow> [] | Some s \<Rightarrow> s) = trim args"
    by (simp add: trim_dropWhile trim_blank)
  have "parsePath (pre @ c # args @ rest) = parsePath pre @ parsePath (c # args @ rest)"
    using assms(1) isCommandLetter_isLetter parsePath_append [of "c # args @ rest" pre] by simp
  also have "parsePath (c # args @ rest) = parseCommand c ?g # parsePath rest"
    using assms by (rule parsePath_command)
  finally have 1: "parsePath (pre @ c # args @ rest) =
      parsePath pre @ parseCommand c ?g # parsePath rest" .
  have 3: "\<forall>k<length (fieldsOf c). getProp (parseCommand c ?g) (fieldsOf c ! k) =
              (if k < length (split (trim args))
               then Num (Number (split (trim args) ! k)) else Undefined)"
    using parseCommand_field [of _ c ?g] unfolding tr by (simp add: coordAt_def)
  have zero: "Number [] = Fin 0 0" by (simp add: Number_def trim_def)
  have 4: "\<forall>k<length (split (trim args)).
              (Number (split (trim args) ! k) = NaN \<longleftrightarrow>
                 split (trim args) ! k \<noteq> [] \<and>
                 \<not> isDecimalToken (withoutSign (split (trim args) ! k))) \<and>
              (split (trim args) ! k = [] \<longrightarrow> Number (split (trim args) ! k) = Fin 0 0)"
    using token_NaN [OF assms(2)] zero by simp
  from 1 3 4 parseCommand_command show ?thesis by blast
qed

theorem parsePath_argument_fields_witness:
  "(\<exists>obj. parsePath (js ''M 1-2'') = [obj] \<and> getProp obj ''x'' = Num NaN \<and>
      getProp obj ''y'' = Undefined) \<and>
   (\<exists>obj. parsePath (js ''M'') = [obj] \<and> getProp obj ''x'' = Num (Fin 0 0) \<and>
      getProp obj ''y'' = Undefined)"
proof -
  have h: "isCommandLetter (ch CHR ''M'')" "\<forall>x\<in>set (js '' 1-2''). \<not> isLetter x"
    "([]::jsstring) = [] \<or> isLetter (hd [])"
    by (simp_all add: isLetter_def isCommandLetter_def js_def ch_def)
  have h': "\<forall>x\<in>set ([]::jsstring). \<not> isLetter x" by simp
  have s: "[] @ ch CHR ''M'' # js '' 1-2'' @ [] = js ''M 1-2''"
    and s': "[] @ ch CHR ''M'' # [] @ [] = js ''M''"
    by (simp_all add: js_def)
  have e: "parsePath [] = []" by code_simp
  have t: "split (trim (js '' 1-2'')) = [js ''1-2'']" and t': "split (trim []) = [[]]"
    by code_simp+
  have n: "Number (js ''1-2'') = NaN" and n': "Number [] = Fin 0 0" by code_simp+
  have f: "fieldsOf (ch CHR ''M'') = [''x'', ''y'']" by (simp add: fieldsOf_def)
  from parsePath_argument_fields [OF h, of "[]"] obtain obj where
    1: "parsePath (js ''M 1-2'') = [obj]" and
    2: "\<forall>k<2. getProp obj ([''x'', ''y''] ! k) =
             (if k < 1 then Num (Number ([js ''1-2''] ! k)) else Undefined)"
    unfolding s e t f by fastforce
  from 2 [rule_format, of 0] have "getProp obj ''x'' = Num NaN" using n by simp
  moreover from 2 [rule_format, of 1] have "getProp obj ''y'' = Undefined" by simp
  ultimately have first: "\<exists>obj. parsePath (js ''M 1-2'') = [obj] \<and>
      getProp obj ''x'' = Num NaN \<and> getProp obj ''y'' = Undefined"
    using 1 by blast
  from parsePath_argument_fields [OF h(1) h' h(3), of "[]"] obtain obj' where
    3: "parsePath (js ''M'') = [obj']" and
    4: "\<forall>k<2. getProp obj' ([''x'', ''y''] ! k) =
             (if k < 1 then Num (Number ([[]] ! k)) else Undefined)"
    unfolding s' e t' f by fastforce
  from 4 [rule_format, of 0] have "getProp obj' ''x'' = Num (Fin 0 0)" using n' by simp
  moreover from 4 [rule_format, of 1] have "getProp obj' ''y'' = Undefined" by simp
  ultimately have "\<exists>obj. parsePath (js ''M'') = [obj] \<and>
      getProp obj ''x'' = Num (Fin 0 0) \<and> getProp obj ''y'' = Undefined"
    using 3 by blast
  with first show ?thesis by blast
qed

text \<open>
  The claim as the specification states it fails on a truncated argument list: the
  missing \<open>y\<close> of \<open>M 5\<close> is \<open>undefined\<close>.
\<close>

theorem parsePath_truncated_counterexample:
  "getProp (parsePath (js ''M 5'') ! 0) ''y'' \<noteq> Num NaN"
  by code_simp

section \<open>Properties of updatePath\<close>

lemma getProp_movePoint_other:
  "k \<notin> set (movedFields (upd_pointType upd)) \<Longrightarrow>
     getProp (movePoint upd obj) k = getProp obj k"
  by (auto simp: movePoint_def movedFields_def getProp_setProp)

lemma getProp_movePoint_moved:
  "getProp (movePoint upd obj) (movedFields (upd_pointType upd) ! 0) = upd_x upd \<and>
   getProp (movePoint upd obj) (movedFields (upd_pointType upd) ! 1) = upd_y upd"
  by (auto simp: movePoint_def movedFields_def getProp_setProp)

lemma concat_map_update:
  "i < length xs \<Longrightarrow>
     concat (map f (xs[i := y])) =
       concat (map f (take i xs)) @ f y @ concat (map f (drop (Suc i) xs))"
  by (simp add: upd_conv_take_nth_drop)

text \<open>
  What a successful \<open>updatePath\<close> writes: the index is a position of the parsed
  array; the new \<open>d\<close> attribute is the serialisation of the commands before that
  position, of the command at the position with only the fields of the point type
  replaced by the new coordinates, and of the commands after it, followed by the
  \<open>Z\<close> that \<open>generatePath\<close> appends when the old attribute ended with \<open>Z\<close>. No other
  element of the document changes.
\<close>

lemma updatePath_frame:
  assumes "updatePath doc ed upd = Inr (doc', ed')"
  shows "\<exists>i moved el'.
           arrayIndex (upd_index upd) = Some i \<and>
           i < length (parsePath (attrText (attr_d (doc ! pathElem ed)))) \<and>
           getElementById doc (elem_id (doc ! pathElem ed)) = Some el' \<and>
           (\<forall>k. k \<notin> set (movedFields (upd_pointType upd)) \<longrightarrow>
              getProp moved k =
                getProp (parsePath (attrText (attr_d (doc ! pathElem ed))) ! i) k) \<and>
           getProp moved (movedFields (upd_pointType upd) ! 0) = upd_x upd \<and>
           getProp moved (movedFields (upd_pointType upd) ! 1) = upd_y upd \<and>
           attr_d (doc' ! pathElem ed) =
             Some (trim
               (concat (map segment
                  (take i (parsePath (attrText (attr_d (doc ! pathElem ed)))))) @
                segment moved @
                concat (map segment
                  (drop (Suc i) (parsePath (attrText (attr_d (doc ! pathElem ed)))))) @
                (if (case attr_d el' of None \<Rightarrow> False
                     | Some s \<Rightarrow> endsWith (trim s) (js ''Z''))
                 then js ''Z'' else []))) \<and>
           elem_id (doc' ! pathElem ed) = elem_id (doc ! pathElem ed) \<and>
           length doc' = length doc \<and>
           (\<forall>e<length doc. e \<noteq> pathElem ed \<longrightarrow> doc' ! e = doc ! e)"
proof -
  let ?el = "doc ! pathElem ed"
  let ?cmds = "parsePath (attrText (attr_d ?el))"
  from assms have inr: "pathElem ed < length doc"
    by (auto simp: updatePath_def split: if_splits)
  from assms inr obtain i where i: "arrayIndex (upd_index upd) = Some i"
    by (auto simp: updatePath_def Let_def split: option.splits)
  from assms inr i have len: "i < length ?cmds"
    by (auto simp: updatePath_def Let_def split: if_splits)
  let ?moved = "movePoint upd (?cmds ! i)"
  from assms inr i len obtain newD where
    gen: "generatePath doc (?cmds[i := ?moved]) (elem_id ?el) = Inr newD"
    and d': "doc' = doc[pathElem ed := ?el\<lparr>attr_d := Some newD\<rparr>]"
    by (auto simp: updatePath_def Let_def split: sum.splits)
  from gen obtain el' where el': "getElementById doc (elem_id ?el) = Some el'"
    by (auto simp: generatePath_def Let_def split: option.splits)
  from gen el' have newD: "newD = trim (concat (map segment (?cmds[i := ?moved])) @
      (if (case attr_d el' of None \<Rightarrow> False | Some s \<Rightarrow> endsWith (trim s) (js ''Z''))
       then js ''Z'' else []))"
    by (auto simp: generatePath_def Let_def foldl_emitCommand closesWithZ_iff)
  have attr: "attr_d (doc' ! pathElem ed) = Some newD"
    using d' inr by simp
  have "attr_d (doc' ! pathElem ed) =
             Some (trim
               (concat (map segment (take i ?cmds)) @ segment ?moved @
                concat (map segment (drop (Suc i) ?cmds)) @
                (if (case attr_d el' of None \<Rightarrow> False
                     | Some s \<Rightarrow> endsWith (trim s) (js ''Z''))
                 then js ''Z'' else [])))"
    unfolding attr newD concat_map_update [OF len] by simp
  moreover have "elem_id (doc' ! pathElem ed) = elem_id ?el" using d' inr by simp
  moreover have "length doc' = length doc" using d' by simp
  moreover have "\<forall>e<length doc. e \<noteq> pathElem ed \<longrightarrow> doc' ! e = doc ! e"
    using d' by simp
  ultimately show ?thesis
    using i len el' getProp_movePoint_other [of _ upd "?cmds ! i"]
      getProp_movePoint_moved [of upd "?cmds ! i"]
    by blast
qed

text \<open>
  Claim C6 at the example of the specification: moving the end point of command 0
  of \<open>M 10,10 L 20,20 Z\<close> to (5,5). The other commands are written back unchanged,
  and a further \<open>Z\<close> command follows them; every further call adds one more.
\<close>

theorem updatePath_repeats_closing_Z:
  "(case updatePath exampleDoc \<lparr>pathElem = 0, markers = []\<rparr> exampleUpdate of
      Inl err \<Rightarrow> False
    | Inr (doc1, ed1) \<Rightarrow>
        attr_d (doc1 ! 0) = Some (js ''M 5,5 L 20,20 Z Z'') \<and>
        (case updatePath doc1 ed1 exampleUpdate of
           Inl err \<Rightarrow> False
         | Inr (doc2, ed2) \<Rightarrow> attr_d (doc2 ! 0) = Some (js ''M 5,5 L 20,20 Z Z Z'')))"
  unfolding exampleDoc_def exampleUpdate_def by code_simp

section \<open>Properties of the preset manager\<close>





lemma keys_writeProperty:
  "name \<noteq> js ''__proto__'' \<Longrightarrow>
     map fst (writeProperty obj name data) =
       (if name \<in> set (map fst obj) then map fst obj else map fst obj @ [name])"
  by (simp add: writeProperty_def update_keys)

lemma firstOccurrences_snoc:
  "firstOccurrences (xs @ [k]) =
     (if k \<in> set xs then firstOccurrences xs else firstOccurrences xs @ [k])"
  by (simp add: firstOccurrences_def)

lemma set_firstOccurrences [simp]: "set (firstOccurrences xs) = set xs"
  by (simp add: firstOccurrences_def)

lemma distinct_firstOccurrences [simp]: "distinct (firstOccurrences xs)"
  by (simp add: firstOccurrences_def)

lemma saveAll_snoc: "saveAll m (saves @ [(name, data)]) = savePreset (saveAll m saves) name data"
  by (simp add: saveAll_def)

lemma keys_saveAll:
  "\<forall>name\<in>set (map fst saves). name \<noteq> js ''__proto__'' \<Longrightarrow>
     map fst (presets (saveAll PresetManagerFactory saves)) = firstOccurrences (map fst saves)"
proof (induction saves rule: rev_induct)
  case Nil
  then show ?case by (simp add: saveAll_def PresetManagerFactory_def firstOccurrences_def)
next
  case (snoc s saves)
  obtain name data where s: "s = (name, data)" by (cases s)
  from snoc.prems s have n: "name \<noteq> js ''__proto__''" by simp
  from snoc have ih: "map fst (presets (saveAll PresetManagerFactory saves)) =
      firstOccurrences (map fst saves)" by simp
  show ?case
    unfolding s saveAll_snoc
    by (simp add: savePreset_def keys_writeProperty [OF n] ih firstOccurrences_snoc)
qed

text \<open>
  Claim C5, as the code has it. After any sequence of \<open>savePreset\<close> calls on a new
  manager with names other than \<open>__proto__\<close>, \<open>getPresetNames\<close> returns every saved
  name once: the names that are array indices first, by ascending number, then all
  other names in the order of their first save. When no name is an array index the
  result is the order of first saves.
\<close>

theorem getPresetNames_order:
  assumes "\<forall>name\<in>set (map fst saves). name \<noteq> js ''__proto__''"
  shows "getPresetNames (saveAll PresetManagerFactory saves) =
           sort_key (digitsValue 10) (filter isArrayIndex (firstOccurrences (map fst saves))) @
           filter (\<lambda>k. \<not> isArrayIndex k) (firstOccurrences (map fst saves)) \<and>
         distinct (getPresetNames (saveAll PresetManagerFactory saves)) \<and>
         set (getPresetNames (saveAll PresetManagerFactory saves)) = set (map fst saves) \<and>
         ((\<forall>name\<in>set (map fst saves). \<not> isArrayIndex name) \<longrightarrow>
            getPresetNames (saveAll PresetManagerFactory saves) = firstOccurrences (map fst saves))"
proof -
  have k: "map fst (presets (saveAll PresetManagerFactory saves)) = firstOccurrences (map fst saves)"
    using assms by (rule keys_saveAll)
  have 1: "getPresetNames (saveAll PresetManagerFactory saves) =
           sort_key (digitsValue 10) (filter isArrayIndex (firstOccurrences (map fst saves))) @
           filter (\<lambda>k. \<not> isArrayIndex k) (firstOccurrences (map fst saves))"
    by (simp add: getPresetNames_def objectKeys_def k)
  have 2: "distinct (getPresetNames (saveAll PresetManagerFactory saves))"
    unfolding 1 by (auto simp: distinct_filter)
  have 3: "set (getPresetNames (saveAll PresetManagerFactory saves)) = set (map fst saves)"
    unfolding 1 by auto
  have 4: "(\<forall>name\<in>set (map fst saves). \<not> isArrayIndex name) \<longrightarrow>
            getPresetNames (saveAll PresetManagerFactory saves) = firstOccurrences (map fst saves)"
  proof
    assume a: "\<forall>name\<in>set (map fst saves). \<not> isArrayIndex name"
    then have "filter isArrayIndex (firstOccurrences (map fst saves)) = []"
      and "filter (\<lambda>k. \<not> isArrayIndex k) (firstOccurrences (map fst saves)) =
            firstOccurrences (map fst saves)"
      by (auto simp: filter_empty_conv filter_id_conv)
    then show "getPresetNames (saveAll PresetManagerFactory saves) = firstOccurrences (map fst saves)"
      unfolding 1 by simp
  qed
  from 1 2 3 4 show ?thesis by blast
qed

theorem getPresetNames_order_witness:
  "getPresetNames (saveAll PresetManagerFactory
      [(js ''b'', Ref 1), (js ''a'', Ref 2), (js ''b'', Ref 3)]) = [js ''b'', js ''a'']"
proof -
  have h: "\<forall>name\<in>set (map fst [(js ''b'', Ref 1), (js ''a'', Ref 2), (js ''b'', Ref 3)]).
      name \<noteq> js ''__proto__''"
    by (simp add: js_def)
  have i: "\<forall>name\<in>set (map fst [(js ''b'', Ref 1), (js ''a'', Ref 2), (js ''b'', Ref 3)]).
      \<not> isArrayIndex name"
    by (simp add: js_def isArrayIndex_def isDigit_def ch_def)
  have f: "firstOccurrences (map fst [(js ''b'', Ref 1), (js ''a'', Ref 2), (js ''b'', Ref 3)])
      = [js ''b'', js ''a'']"
    by (simp add: firstOccurrences_def js_def ch_def)
  from getPresetNames_order [OF h] i f show ?thesis by simp
qed

text \<open>
  The claim as the specification states it fails for a name that is an array index:
  saved after \<open>b\<close>, the name \<open>1\<close> is listed before it.
\<close>

theorem getPresetNames_order_counterexample:
  "getPresetNames (saveAll PresetManagerFactory [(js ''b'', Ref 1), (js ''1'', Ref 2)])
     = [js ''1'', js ''b''] \<and>
   getPresetNames (saveAll PresetManagerFactory [(js ''b'', Ref 1), (js ''1'', Ref 2)])
     \<noteq> [js ''b'', js ''1'']"
  by (simp add: getPresetNames_def saveAll_def PresetManagerFactory_def savePreset_def
      writeProperty_def objectKeys_def isArrayIndex_def isDigit_def digitsValue_def
      digitVal_def js_def ch_def)











lemma nth_addEventListener:
  "r < length (elements pg) \<Longrightarrow>
     elements (addEventListener q h pg) ! r =
       (if q = Found r
        then (elements pg ! r)\<lparr>listeners := listeners (elements pg ! r) @ [h]\<rparr>
        else elements pg ! r)"
  by (cases q) (auto simp: addEventListener_def nth_list_update)

lemma length_addEventListener [simp]:
  "length (elements (addEventListener q h pg)) = length (elements pg)"
  by (cases q) (auto simp: addEventListener_def)

text \<open>
  On an element with nothing callable under \<open>click\<close> (an SVG element, say)
  \<open>setup\<close> raises a TypeError once the listeners are added, and nothing is saved.
\<close>

lemma setupPresets_without_click:
  assumes "querySelector pg (saveButton (selectors cfg)) = Found r"
    and "r < length (elements pg)"
    and "clickMethod (elements pg ! r) = NotCallable"
    and "querySelector pg (applyButton (selectors cfg)) \<noteq> InvalidSelector"
    and "querySelector pg (animateButton (selectors cfg)) \<noteq> InvalidSelector"
  shows "\<exists>pg'. setupPresets m pg cfg = (Some TypeError, m, pg') \<and>
           SaveClick cfg \<in> set (listeners (elements pg' ! r))"
  using assms by (simp add: setupPresets_def Let_def click_def nth_addEventListener)




end
